theory Spec2Isabelle
  imports Complex_Main "HOL-Library.Log_Nat"
begin

section \<open>Data of samples/MultipleReadPropertyForeign.py\<close>

text \<open>
  A configured point is the triple \<open>(addr, obj_id, prop_id)\<close> of strings of
  \<open>point_list\<close> (lines 39-42).
\<close>

type_synonym point = "string \<times> string \<times> string"

text \<open>
  The datatype classes that \<open>get_datatype\<close> hands back. The handler only asks whether
  the class is a subclass of \<open>Array\<close> and, if so, reads its \<open>subtype\<close>; every other
  class is known by its name. \<open>subtype\<close> is read on array classes only.
\<close>

datatype bac_class = Unsigned | Atomic string | ArrayOf (subtype: bac_class)

fun is_Array :: "bac_class \<Rightarrow> bool" where
  "is_Array (ArrayOf t) = True"
| "is_Array c = False"

text \<open>The \<open>ReadPropertyRequest\<close> built at lines 71-75.\<close>

record request =
  rq_objectIdentifier :: "string \<times> nat"
  rq_propertyIdentifier :: string
  pduDestination :: string

text \<open>The fields of the acknowledgement that \<open>complete_request\<close> reads.\<close>

record 'raw apdu =
  objectIdentifier :: "string \<times> nat"
  propertyIdentifier :: string
  propertyArrayIndex :: "nat option"
  propertyValue :: 'raw

text \<open>
  An IOCB when its callback fires: the request it was made for, and the
  \<open>ioResponse\<close> and \<open>ioError\<close> attributes (\<open>None\<close> is Python's \<open>None\<close>).
\<close>

record ('raw, 'e) iocb =
  ioRequest :: request
  ioResponse :: "'raw apdu option"
  ioError :: "'e option"

text \<open>
  What \<open>response_values\<close> holds: the handler appends either a value that
  \<open>cast_out\<close> returned or the \<open>ioError\<close> object.
\<close>

datatype ('v, 'e) outcome = DecodedValue 'v | ProtocolError 'e

text \<open>
  The exceptions: the \<open>TypeError\<close> that \<open>complete_request\<close> raises itself, the
  \<open>ZeroDivisionError\<close> of the division in \<open>PrairieDog.__init__\<close>, and whatever a
  collaborator raises, by its name.
\<close>

datatype exn =
    TypeError string
  | ZeroDivisionError
  | LibraryError string

text \<open>
  The collaborators that the sample imports and calls, taken as parameters:
  \<open>get_datatype\<close> (\<open>None\<close> when the registry knows no datatype),
  \<open>Any.cast_out\<close>, and the constructors \<open>ObjectIdentifier\<close> and \<open>Address\<close>;
  each of the last three may raise (\<open>Inl\<close>) instead of returning.
\<close>

record ('raw, 'v) library =
  get_datatype :: "string \<Rightarrow> string \<Rightarrow> bac_class option"
  cast_out :: "'raw \<Rightarrow> bac_class \<Rightarrow> exn + 'v"
  ObjectIdentifier :: "string \<Rightarrow> exn + (string \<times> nat)"
  Address :: "string \<Rightarrow> exn + string"

text \<open>The only function the sample ever hands to \<open>deferred\<close>.\<close>

datatype fn = NextRequest

text \<open>
  The program state. \<open>point_queue\<close> and \<open>response_values\<close> are the attributes of
  \<open>ReadPointListApplication\<close>, \<open>decay\<close> is the attribute of \<open>PrairieDog\<close>. The other
  fields are the state of the event loop that the sample drives through
  \<open>deferred\<close>, \<open>stop\<close>, \<open>install_task\<close>, \<open>suspend_task\<close> and \<open>request_io\<close>:
  the continuations waiting to run, whether the loop runs, whether the recurring
  task is installed, the requests handed to the stack and not yet completed, every
  request handed to the stack so far, and what was written to standard error.

  \<open>decay\<close> is a Python float: the result of the true division
  \<open>5 * 1000 / interval\<close> of Python 3, decremented by \<open>decay -= 1\<close>. It is kept as
  the rational number that the float denotes.
\<close>

record ('v, 'e) state =
  point_queue :: "point list"
  response_values :: "('v, 'e) outcome list"
  decay :: rat
  task_installed :: bool
  deferredFns :: "fn list"
  running :: bool
  io_pending :: "request list"
  io_log :: "request list"
  stderr :: "string list"

section \<open>Python floats\<close>

text \<open>
  A Python float is an IEEE 754 binary64 number, and each finite one is a
  rational. The division of two integers and the subtraction of floats give the
  exact result rounded to the nearest float, ties to the even significand.
  \<open>round_half_even\<close> is that rounding to an integer.
\<close>

definition round_half_even :: "rat \<Rightarrow> int" where
  "round_half_even r =
     (let f = \<lfloor>r\<rfloor>; d = r - of_int f in
      if d < 1 / 2 then f
      else if 1 / 2 < d then f + 1
      else if even f then f else f + 1)"

text \<open>The exponent \<open>e\<close> of a non-zero number: \<open>2 ^ e \<le> |x| < 2 ^ (e + 1)\<close>.\<close>

definition binade :: "rat \<Rightarrow> int" where
  "binade x =
     (if 1 \<le> \<bar>x\<bar> then bitlen \<lfloor>\<bar>x\<bar>\<rfloor> - 1
      else - bitlen (\<lceil>1 / \<bar>x\<bar>\<rceil> - 1))"

text \<open>
  The nearest binary64 number: 53 significant bits, hence a last bit of weight
  \<open>2 ^ (e - 52)\<close>, and never less than \<open>2 ^ -1074\<close>, the weight of the last bit of
  the subnormal numbers. Overflow is left out: the counter starts at no more than
  5000 in magnitude and only ever decreases by one.
\<close>

definition double_round :: "rat \<Rightarrow> rat" where
  "double_round x =
     (if x = 0 then 0
      else
        (let q = max (binade x - 52) (- 1074) in
         of_int (round_half_even (x / 2 powi q)) * 2 powi q))"

section \<open>The event-loop primitives\<close>

text \<open>
  Modelled from the spec: \<open>bacpypes.core.deferred\<close> is not among the sources. The
  spec has it post a continuation to the event loop's ready queue, never a direct
  call.
\<close>

definition deferred :: "fn \<Rightarrow> ('v, 'e) state \<Rightarrow> ('v, 'e) state" where
  "deferred f s = s\<lparr>deferredFns := deferredFns s @ [f]\<rparr>"

text \<open>
  Modelled from the spec: \<open>bacpypes.core.stop\<close> is not among the sources. The spec
  has it stop the event loop.
\<close>

definition stop :: "('v, 'e) state \<Rightarrow> ('v, 'e) state" where
  "stop s = s\<lparr>running := False\<rparr>"

text \<open>
  Modelled from the spec: \<open>RecurringTask.install_task\<close> and \<open>suspend_task\<close> are not
  among the sources. The spec has the monitor tick at a fixed interval once
  installed, and has the suspension deactivate the recurring tick permanently.
\<close>

definition install_task :: "('v, 'e) state \<Rightarrow> ('v, 'e) state" where
  "install_task s = s\<lparr>task_installed := True\<rparr>"

definition suspend_task :: "('v, 'e) state \<Rightarrow> ('v, 'e) state" where
  "suspend_task s = s\<lparr>task_installed := False\<rparr>"

text \<open>
  Modelled from the spec: \<open>request_io\<close> is not among the sources. The spec has it
  submit the request to the protocol stack asynchronously; the completion comes
  later, as a call of the IOCB's callback.
\<close>

definition request_io :: "request \<Rightarrow> ('v, 'e) state \<Rightarrow> ('v, 'e) state" where
  "request_io r s = s\<lparr>io_pending := io_pending s @ [r], io_log := io_log s @ [r]\<rparr>"

section \<open>ReadPointListApplication\<close>

text \<open>
  \<open>__init__\<close> (lines 47-55), together with the fresh event loop: the point list
  becomes the queue and the list of response values starts empty.
\<close>

definition ReadPointListApplication_init :: "point list \<Rightarrow> ('v, 'e) state" where
  "ReadPointListApplication_init point_list =
     \<lparr>point_queue = point_list, response_values = [], decay = 0,
      task_installed = False, deferredFns = [], running = True,
      io_pending = [], io_log = [], stderr = []\<rparr>"

text \<open>
  Lines 67-75 of \<open>next_request\<close>: the request built for a dequeued point. The
  object identifier is parsed first, then the address; either constructor may
  raise.
\<close>

fun build_request :: "('raw, 'v) library \<Rightarrow> point \<Rightarrow> exn + request" where
  "build_request lib (addr, obj_id, prop_id) =
     (case ObjectIdentifier lib obj_id of
        Inl e \<Rightarrow> Inl e
      | Inr oid \<Rightarrow>
          (case Address lib addr of
             Inl e \<Rightarrow> Inl e
           | Inr dest \<Rightarrow>
               Inr \<lparr>rq_objectIdentifier = oid, rq_propertyIdentifier = prop_id,
                    pduDestination = dest\<rparr>))"

text \<open>
  \<open>next_request\<close> (lines 57-86). An empty queue stops the loop. Otherwise the head
  is popped, the request is built and handed to \<open>request_io\<close>. There is no check of
  whether a request is already in flight. A raise keeps the state as it is at
  that moment: the point has been popped already.
\<close>

definition next_request ::
  "('raw, 'v) library \<Rightarrow> ('v, 'e) state \<Rightarrow> (exn \<times> ('v, 'e) state) + ('v, 'e) state" where
  "next_request lib s =
     (case point_queue s of
        [] \<Rightarrow> Inr (stop s)
      | p # rest \<Rightarrow>
          (let s1 = s\<lparr>point_queue := rest\<rparr> in
           case build_request lib p of
             Inl e \<Rightarrow> Inl (e, s1)
           | Inr r \<Rightarrow> Inr (request_io r s1)))"

text \<open>
  Lines 94-107 of \<open>complete_request\<close>: the value computed from a response. No
  datatype raises \<open>TypeError("unknown datatype")\<close>. For an array class with an
  array index present, index 0 is cast out as \<open>Unsigned\<close> and any other index as
  the array's subtype; everything else is cast out as the datatype itself. What
  \<open>cast_out\<close> raises is raised here.
\<close>

definition decode_value :: "('raw, 'v) library \<Rightarrow> 'raw apdu \<Rightarrow> exn + 'v" where
  "decode_value lib apdu =
     (case get_datatype lib (fst (objectIdentifier apdu)) (propertyIdentifier apdu) of
        None \<Rightarrow> Inl (TypeError ''unknown datatype'')
      | Some datatype \<Rightarrow>
          (if is_Array datatype \<and> propertyArrayIndex apdu \<noteq> None then
             (if propertyArrayIndex apdu = Some 0
              then cast_out lib (propertyValue apdu) Unsigned
              else cast_out lib (propertyValue apdu) (subtype datatype))
           else cast_out lib (propertyValue apdu) datatype))"

text \<open>
  \<open>complete_request\<close> (lines 88-118). A response is decoded and its value appended;
  then, by a second independent \<open>if\<close>, an error is appended; then the next
  \<open>next_request\<close> is deferred. A raise while decoding leaves the handler before
  anything is appended or deferred.
\<close>

definition complete_request ::
  "('raw, 'v) library \<Rightarrow> ('v, 'e) state \<Rightarrow> ('raw, 'e) iocb
     \<Rightarrow> (exn \<times> ('v, 'e) state) + ('v, 'e) state" where
  "complete_request lib s c =
     (case (case ioResponse c of
              None \<Rightarrow> Inr s
            | Some apdu \<Rightarrow>
                (case decode_value lib apdu of
                   Inl e \<Rightarrow> Inl (e, s)
                 | Inr v \<Rightarrow>
                     Inr (s\<lparr>response_values := response_values s @ [DecodedValue v]\<rparr>))) of
        Inl x \<Rightarrow> Inl x
      | Inr s1 \<Rightarrow>
          Inr (deferred NextRequest
                 (case ioError c of
                    None \<Rightarrow> s1
                  | Some err \<Rightarrow>
                      s1\<lparr>response_values := response_values s1 @ [ProtocolError err]\<rparr>)))"

section \<open>PrairieDog\<close>

text \<open>
  \<open>__init__\<close> (lines 124-132): the decay counter is \<open>5 * 1000 / interval\<close>, the
  float nearest to the quotient; the division raises \<open>ZeroDivisionError\<close> for
  interval 0. Then the task is installed.
\<close>

definition PrairieDog_init :: "int \<Rightarrow> ('v, 'e) state \<Rightarrow> exn + ('v, 'e) state" where
  "PrairieDog_init interval s =
     (if interval = 0 then Inl ZeroDivisionError
      else Inr (install_task (s\<lparr>decay := double_round (5 * 1000 / of_int interval)\<rparr>)))"

text \<open>
  \<open>process_task\<close> (lines 134-154), given the \<open>registrationStatus\<close> it observes.
  Status 0 defers the first \<open>next_request\<close> and suspends the task. Any other status
  decrements the counter, a float subtraction; when it is then equal to 0 the
  diagnostic is written and the loop stopped.
\<close>

definition process_task :: "('v, 'e) state \<Rightarrow> int \<Rightarrow> ('v, 'e) state" where
  "process_task s registrationStatus =
     (if registrationStatus = 0 then suspend_task (deferred NextRequest s)
      else
        (let s1 = s\<lparr>decay := double_round (decay s - 1)\<rparr> in
         if decay s1 = 0
         then stop (s1\<lparr>stderr := stderr s1 @ [''registration failed\<newline>'']\<rparr>)
         else s1))"

section \<open>main\<close>

text \<open>
  Lines 171-179 of \<open>main\<close>: the application is built from the point list and the
  monitor is created. \<open>main\<close> passes the interval 500; it is a parameter here.
\<close>

definition main_with :: "int \<Rightarrow> point list \<Rightarrow> exn + ('v, 'e) state" where
  "main_with interval point_list =
     PrairieDog_init interval (ReadPointListApplication_init point_list)"

definition main_start :: "point list \<Rightarrow> exn + ('v, 'e) state" where
  "main_start point_list = main_with 500 point_list"

text \<open>
  Lines 186-188 of \<open>main\<close>: what is printed after the loop has ended, one line
  for each pair of \<open>zip(point_list, response_values)\<close>.
\<close>

definition dump :: "point list \<Rightarrow> ('v, 'e) state \<Rightarrow> (point \<times> ('v, 'e) outcome) list" where
  "dump point_list s = zip point_list (response_values s)"

section \<open>The event loop\<close>

text \<open>
  What the loop of \<open>run()\<close> can do next: a tick of the recurring task, which
  observes a registration status; the next deferred continuation; the completion
  of a request that is in flight.
\<close>

datatype ('raw, 'e) event =
    Tick int
  | RunDeferred
  | Completion "('raw, 'e) iocb"

text \<open>The state in which a handler leaves the program, returned or raised.\<close>

fun after :: "(exn \<times> 's) + 's \<Rightarrow> 's" where
  "after (Inl (e, s)) = s"
| "after (Inr s) = s"

text \<open>
  Modelled from the spec: \<open>bacpypes.core.run\<close>, the task manager and the protocol
  stack are not among the sources. The spec has one single-threaded loop that
  multiplexes the monitor's ticks, the completions of in-flight requests and the
  deferred continuations. A stopped loop does nothing more. A tick needs the task
  installed; a continuation is taken from the head of the ready queue; a
  completion is delivered at most once, for a request that is in flight. \<open>None\<close>
  says that the event cannot happen in the state.
\<close>

definition step ::
  "('raw, 'v) library \<Rightarrow> ('raw, 'e) event \<Rightarrow> ('v, 'e) state \<Rightarrow> ('v, 'e) state option" where
  "step lib ev s =
     (if \<not> running s then None
      else
        (case ev of
           Tick registrationStatus \<Rightarrow>
             (if task_installed s then Some (process_task s registrationStatus) else None)
         | RunDeferred \<Rightarrow>
             (case deferredFns s of
                [] \<Rightarrow> None
              | f # fs \<Rightarrow> Some (after (next_request lib (s\<lparr>deferredFns := fs\<rparr>))))
         | Completion c \<Rightarrow>
             (if ioRequest c \<in> set (io_pending s)
              then Some (after (complete_request lib
                                  (s\<lparr>io_pending := remove1 (ioRequest c) (io_pending s)\<rparr>) c))
              else None)))"

fun exec ::
  "('raw, 'v) library \<Rightarrow> ('raw, 'e) event list \<Rightarrow> ('v, 'e) state \<Rightarrow> ('v, 'e) state option" where
  "exec lib [] s = Some s"
| "exec lib (ev # evs) s =
     (case step lib ev s of
        None \<Rightarrow> None
      | Some s' \<Rightarrow> exec lib evs s')"

section \<open>Runs and what is said about them\<close>

text \<open>A tick that observes the registration status 0, the successful one.\<close>

fun is_success_tick :: "('raw, 'e) event \<Rightarrow> bool" where
  "is_success_tick (Tick registrationStatus) = (registrationStatus = 0)"
| "is_success_tick ev = False"

text \<open>The completions of a run, in the order in which they were delivered.\<close>

fun completions :: "('raw, 'e) event list \<Rightarrow> ('raw, 'e) iocb list" where
  "completions [] = []"
| "completions (Completion c # evs) = c # completions evs"
| "completions (ev # evs) = completions evs"

text \<open>
  The run that the request driver makes of a list of completions: each deferred
  \<open>next_request\<close> is followed by the completion of the request it sent, and a last
  \<open>next_request\<close> finds the queue empty.
\<close>

fun drive :: "('raw, 'e) iocb list \<Rightarrow> ('raw, 'e) event list" where
  "drive [] = [RunDeferred]"
| "drive (c # cs) = RunDeferred # Completion c # drive cs"

text \<open>
  A completion answers with an outcome when it carries either a response and no
  error, the response decoding to the value, or an error and no response.
\<close>

fun answers :: "('raw, 'v) library \<Rightarrow> ('raw, 'e) iocb \<Rightarrow> ('v, 'e) outcome \<Rightarrow> bool" where
  "answers lib c (DecodedValue v) =
     (ioError c = None \<and>
      (case ioResponse c of None \<Rightarrow> False | Some apdu \<Rightarrow> decode_value lib apdu = Inr v))"
| "answers lib c (ProtocolError err) = (ioResponse c = None \<and> ioError c = Some err)"

text \<open>
  A clean completion carries exactly one of a response that decodes and an error.
\<close>

definition clean :: "('raw, 'v) library \<Rightarrow> ('raw, 'e) iocb \<Rightarrow> bool" where
  "clean lib c =
     (case ioResponse c of
        None \<Rightarrow> ioError c \<noteq> None
      | Some apdu \<Rightarrow> ioError c = None \<and> \<not> isl (decode_value lib apdu))"

text \<open>
  Single flight: at most one of a deferred \<open>next_request\<close> and a request in flight
  exists; while the monitor is installed nothing has been deferred, sent or
  recorded; and once the loop has been stopped after the monitor was suspended,
  the queue is empty and nothing is left in flight.
\<close>

definition single_flight :: "('v, 'e) state \<Rightarrow> bool" where
  "single_flight s =
     (length (deferredFns s) + length (io_pending s) \<le> 1
      \<and> (task_installed s \<longrightarrow>
           deferredFns s = [] \<and> io_pending s = [] \<and> io_log s = [] \<and> response_values s = [])
      \<and> (\<not> running s \<and> \<not> task_installed s \<longrightarrow>
           point_queue s = [] \<and> deferredFns s = [] \<and> io_pending s = []))"

text \<open>
  The requests sent so far, followed by those of the points still queued, are the
  requests of the configured list.
\<close>

definition in_order :: "('raw, 'v) library \<Rightarrow> point list \<Rightarrow> ('v, 'e) state \<Rightarrow> bool" where
  "in_order lib point_list s =
     (map (build_request lib) point_list =
        map Inr (io_log s) @ map (build_request lib) (point_queue s))"

text \<open>
  As long as the run is not stuck (the monitor is installed, an advance is
  waiting, a request is in flight, or the loop has been stopped), every
  configured point is either still queued or has had its request sent.
\<close>

definition accounted :: "point list \<Rightarrow> ('v, 'e) state \<Rightarrow> bool" where
  "accounted point_list s =
     (task_installed s \<or> deferredFns s \<noteq> [] \<or> io_pending s \<noteq> [] \<or> \<not> running s \<longrightarrow>
      length (io_log s) + length (point_queue s) = length point_list)"

text \<open>
  After the hand-over and until the loop is stopped, either an advance is waiting
  to run or a request is in flight.
\<close>

definition never_stuck :: "('v, 'e) state \<Rightarrow> bool" where
  "never_stuck s =
     (running s \<and> \<not> task_installed s \<longrightarrow> deferredFns s \<noteq> [] \<or> io_pending s \<noteq> [])"

text \<open>Every request sent is either recorded or still in flight.\<close>

definition counted :: "('v, 'e) state \<Rightarrow> bool" where
  "counted s = (length (response_values s) + length (io_pending s) = length (io_log s))"

section \<open>A concrete configuration\<close>

text \<open>
  The sample's own \<open>point_list\<close> (lines 39-42).
\<close>

definition sample_points :: "point list" where
  "sample_points =
     [(''10.0.1.14'', ''analogValue:1'', ''presentValue''),
      (''10.0.1.14'', ''analogValue:2'', ''presentValue'')]"

text \<open>
  A small instance of the collaborators, to run the definitions on: raw payloads
  are integers, a decoded value is the payload tagged with the class it was cast
  out as. The registry knows \<open>presentValue\<close> (a real) and \<open>priorityArray\<close> (an
  array) of analog values; a negative payload has no unsigned reading.
\<close>

definition sample_library :: "(int, string \<times> int) library" where
  "sample_library =
     \<lparr>get_datatype = (\<lambda>object_type property.
        if object_type = ''analogValue'' \<and> property = ''presentValue''
        then Some (Atomic ''Real'')
        else if object_type = ''analogValue'' \<and> property = ''priorityArray''
        then Some (ArrayOf (Atomic ''PriorityValue''))
        else None),
      cast_out = (\<lambda>raw cls.
        case cls of
          Unsigned \<Rightarrow> if 0 \<le> raw then Inr (''Unsigned'', raw) else Inl (LibraryError ''cast_out'')
        | Atomic name \<Rightarrow> Inr (name, raw)
        | ArrayOf elem \<Rightarrow> Inr (''Array'', raw)),
      ObjectIdentifier = (\<lambda>obj_id.
        if obj_id = ''analogValue:1'' then Inr (''analogValue'', 1)
        else if obj_id = ''analogValue:2'' then Inr (''analogValue'', 2)
        else Inl (LibraryError ''ObjectIdentifier'')),
      Address = (\<lambda>addr. if addr = [] then Inl (LibraryError ''Address'') else Inr addr)\<rparr>"

text \<open>The requests that the sample's two points lead to.\<close>

definition sample_request :: "nat \<Rightarrow> request" where
  "sample_request n =
     \<lparr>rq_objectIdentifier = (''analogValue'', n), rq_propertyIdentifier = ''presentValue'',
      pduDestination = ''10.0.1.14''\<rparr>"

text \<open>An acknowledgement for analog value \<open>n\<close>.\<close>

definition sample_ack :: "nat \<Rightarrow> string \<Rightarrow> nat option \<Rightarrow> int \<Rightarrow> int apdu" where
  "sample_ack n property index raw =
     \<lparr>objectIdentifier = (''analogValue'', n), propertyIdentifier = property,
      propertyArrayIndex = index, propertyValue = raw\<rparr>"

text \<open>
  The state of the sample right after \<open>main\<close> has built the application and the
  monitor, with the given decay counter.
\<close>

definition sample_waiting :: "rat \<Rightarrow> (string \<times> int, string) state" where
  "sample_waiting d =
     \<lparr>point_queue = sample_points, response_values = [], decay = d,
      task_installed = True, deferredFns = [], running = True,
      io_pending = [], io_log = [], stderr = []\<rparr>"

section \<open>Rounding to a float\<close>

lemma powi2_less_imp: "(2 :: rat) powi a < 2 powi b \<Longrightarrow> a < b"
proof (rule ccontr)
  assume l: "(2 :: rat) powi a < 2 powi b" and "\<not> a < b"
  then have "b \<le> a" by simp
  from power_int_increasing [OF this, of "2 :: rat"] l show False by simp
qed

lemma powi2_neg: "0 \<le> k \<Longrightarrow> (2 :: rat) powi (- k) = inverse (2 ^ nat k)"
  by (cases "k = 0") (simp_all add: power_int_def power_inverse inverse_eq_divide power_one_over)

lemma round_half_even_of_int: "round_half_even (of_int k) = k"
  by (simp add: round_half_even_def)


lemma binade_lower:
  assumes "x \<noteq> 0"
  shows "2 powi binade x \<le> \<bar>x\<bar>"
proof (cases "1 \<le> \<bar>x\<bar>")
  case True
  let ?n = "\<lfloor>\<bar>x\<bar>\<rfloor>"
  from True have n: "0 < ?n" by linarith
  from bitlen_bounds [OF n] have "2 ^ nat (bitlen ?n - 1) \<le> ?n" by simp
  then have "(of_int (2 ^ nat (bitlen ?n - 1)) :: rat) \<le> of_int ?n" by (simp only: of_int_le_iff)
  also have "\<dots> \<le> \<bar>x\<bar>" by linarith
  finally have "(2 :: rat) ^ nat (bitlen ?n - 1) \<le> \<bar>x\<bar>" by simp
  moreover have "0 \<le> bitlen ?n - 1" using n by (simp add: bitlen_alt_def)
  ultimately show ?thesis using True by (simp add: binade_def power_int_def)
next
  case False
  let ?y = "1 / \<bar>x\<bar>"
  let ?n = "\<lceil>?y\<rceil> - 1"
  from False assms have x: "0 < \<bar>x\<bar>" "\<bar>x\<bar> < 1" by simp_all
  then have y: "1 < ?y" by simp
  have n: "0 < ?n" using y by linarith
  from bitlen_bounds [OF n] have c: "\<lceil>?y\<rceil> \<le> 2 ^ nat (bitlen ?n)" by simp
  have "?y \<le> of_int \<lceil>?y\<rceil>" by (rule le_of_int_ceiling)
  also have "\<dots> \<le> of_int (2 ^ nat (bitlen ?n))" using c by (simp only: of_int_le_iff)
  also have "\<dots> = 2 ^ nat (bitlen ?n)" by simp
  finally have "?y \<le> 2 ^ nat (bitlen ?n)" .
  then have "1 \<le> 2 ^ nat (bitlen ?n) * \<bar>x\<bar>" using x(1) by (simp add: field_simps)
  then have "inverse (2 ^ nat (bitlen ?n)) \<le> \<bar>x\<bar>" by (simp add: field_simps)
  moreover have "binade x = - bitlen ?n" using False by (simp add: binade_def)
  ultimately show ?thesis by (simp only: powi2_neg [OF bitlen_nonneg])
qed

lemma binade_upper:
  assumes "x \<noteq> 0"
  shows "\<bar>x\<bar> < 2 powi (binade x + 1)"
proof (cases "1 \<le> \<bar>x\<bar>")
  case True
  let ?n = "\<lfloor>\<bar>x\<bar>\<rfloor>"
  from True have n: "0 < ?n" by linarith
  from bitlen_bounds [OF n] have "?n + 1 \<le> 2 ^ nat (bitlen ?n)" by simp
  then have "(of_int (?n + 1) :: rat) \<le> of_int (2 ^ nat (bitlen ?n))" by (simp only: of_int_le_iff)
  moreover have "\<bar>x\<bar> < of_int (?n + 1)" by (simp; linarith)
  ultimately have "\<bar>x\<bar> < 2 ^ nat (bitlen ?n)" by simp
  moreover have "0 \<le> bitlen ?n" by (rule bitlen_nonneg)
  ultimately show ?thesis using True by (simp add: binade_def power_int_def)
next
  case False
  let ?y = "1 / \<bar>x\<bar>"
  let ?n = "\<lceil>?y\<rceil> - 1"
  from False assms have x: "0 < \<bar>x\<bar>" "\<bar>x\<bar> < 1" by simp_all
  then have y: "1 < ?y" by simp
  have n: "0 < ?n" using y by linarith
  have lt: "of_int ?n < ?y" by linarith
  from bitlen_bounds [OF n] have "2 ^ nat (bitlen ?n - 1) \<le> ?n" by simp
  then have "(of_int (2 ^ nat (bitlen ?n - 1)) :: rat) \<le> of_int ?n" by (simp only: of_int_le_iff)
  with lt have "2 ^ nat (bitlen ?n - 1) < ?y" by simp
  then have "2 ^ nat (bitlen ?n - 1) * \<bar>x\<bar> < 1" using x(1) by (simp add: field_simps)
  then have a: "\<bar>x\<bar> < inverse (2 ^ nat (bitlen ?n - 1))" by (simp add: field_simps)
  have b: "1 \<le> bitlen ?n" using n by (simp add: bitlen_alt_def)
  have "binade x + 1 = - (bitlen ?n - 1)" using False by (simp add: binade_def)
  moreover have "0 \<le> bitlen ?n - 1" using b by simp
  ultimately show ?thesis using a by (simp only: powi2_neg)
qed

lemma double_round_exact:
  assumes "\<bar>m\<bar> < 2 ^ 53" and "- 1074 \<le> q0"
  shows "double_round (of_int m * 2 powi q0) = of_int m * 2 powi q0"
proof (cases "m = 0")
  case True
  then show ?thesis by (simp add: double_round_def)
next
  case False
  let ?x = "of_int m * 2 powi q0 :: rat"
  have x0: "?x \<noteq> 0" using False by simp
  define q where "q = max (binade ?x - 52) (- 1074)"
  have "2 powi binade ?x \<le> \<bar>?x\<bar>" by (rule binade_lower [OF x0])
  also have "\<bar>?x\<bar> = of_int \<bar>m\<bar> * 2 powi q0" by (simp add: abs_mult)
  also have "\<dots> < of_int (2 ^ 53) * 2 powi q0"
    using assms(1) by (intro mult_strict_right_mono) (simp_all only: of_int_less_iff, simp)
  also have "\<dots> = 2 powi (53 + q0)" by (simp add: power_int_add)
  finally have "(2 :: rat) powi binade ?x < 2 powi (53 + q0)" .
  then have "binade ?x < 53 + q0" by (rule powi2_less_imp)
  then have qle: "q \<le> q0" using assms(2) by (simp add: q_def)
  define k where "k = m * 2 ^ nat (q0 - q)"
  have "?x / 2 powi q = of_int m * 2 powi (q0 - q)" by (simp add: power_int_diff)
  also have "\<dots> = of_int k" using qle by (simp add: k_def power_int_def)
  finally have xq: "?x / 2 powi q = of_int k" .
  have "double_round ?x = of_int (round_half_even (?x / 2 powi q)) * 2 powi q"
    using x0 unfolding double_round_def q_def Let_def by simp
  also have "\<dots> = of_int k * 2 powi q" by (simp only: xq round_half_even_of_int)
  also have "\<dots> = ?x / 2 powi q * 2 powi q" by (simp only: xq)
  also have "\<dots> = ?x" by simp
  finally show ?thesis .
qed

lemma double_round_of_int: "\<bar>k\<bar> < 2 ^ 53 \<Longrightarrow> double_round (of_int k) = of_int k"
  using double_round_exact [of k 0] by simp



lemma double_round_numeral:
  "(numeral w :: int) < 2 ^ 53 \<Longrightarrow> double_round (numeral w) = numeral w"
  using double_round_of_int [of "numeral w"] by simp

lemma double_round_one: "double_round 1 = 1"
  using double_round_of_int [of 1] by simp

lemma double_round_zero: "double_round 0 = 0"
  by (simp add: double_round_def)

lemmas double_round_evals = double_round_numeral double_round_one double_round_zero


section \<open>The completion handler\<close>

text \<open>
  Claim C3. For a successful response whose datatype the registry resolves: when the
  datatype is an array class and the response carries the array index 0, the value
  is cast out as \<open>Unsigned\<close>, whatever the element type; when it carries another
  index, the value is cast out as the array's subtype; when the datatype is no
  array, or no index is carried, the value is cast out as the datatype itself.
  The value so decoded is what the handler appends.
\<close>

theorem array_index_decoding:
  assumes "ioResponse c = Some apdu" and "ioError c = None"
    and "get_datatype lib (fst (objectIdentifier apdu)) (propertyIdentifier apdu) = Some dt"
  shows "(is_Array dt \<and> propertyArrayIndex apdu = Some 0 \<longrightarrow>
            decode_value lib apdu = cast_out lib (propertyValue apdu) Unsigned)
       \<and> (is_Array dt \<and> (\<exists>i. propertyArrayIndex apdu = Some i \<and> i \<noteq> 0) \<longrightarrow>
            decode_value lib apdu = cast_out lib (propertyValue apdu) (subtype dt))
       \<and> (\<not> is_Array dt \<or> propertyArrayIndex apdu = None \<longrightarrow>
            decode_value lib apdu = cast_out lib (propertyValue apdu) dt)
       \<and> (\<forall>v. decode_value lib apdu = Inr v \<longrightarrow>
            complete_request lib s c =
              Inr (deferred NextRequest
                     (s\<lparr>response_values := response_values s @ [DecodedValue v]\<rparr>)))"
  using assms by (auto simp: decode_value_def complete_request_def)

theorem array_index_decoding_witness:
  "get_datatype sample_library ''analogValue'' ''priorityArray''
     = Some (ArrayOf (Atomic ''PriorityValue''))
   \<and> decode_value sample_library (sample_ack 1 ''priorityArray'' (Some 0) 16)
     = Inr (''Unsigned'', 16)
   \<and> decode_value sample_library (sample_ack 1 ''priorityArray'' (Some 3) 16)
     = Inr (''PriorityValue'', 16)
   \<and> decode_value sample_library (sample_ack 1 ''priorityArray'' None 16)
     = Inr (''Array'', 16)
   \<and> complete_request sample_library (sample_waiting 10)
        \<lparr>ioRequest = sample_request 1,
         ioResponse = Some (sample_ack 1 ''priorityArray'' (Some 0) 16),
         ioError = (None :: string option)\<rparr>
     = Inr (deferred NextRequest
              ((sample_waiting 10)\<lparr>response_values := [DecodedValue (''Unsigned'', 16)]\<rparr>))"
proof -
  let ?dt = "ArrayOf (Atomic ''PriorityValue'')"
  have reg: "get_datatype sample_library ''analogValue'' ''priorityArray'' = Some ?dt"
    by (simp add: sample_library_def)
  have cast: "cast_out sample_library (16::int) Unsigned = Inr (''Unsigned'', 16)"
    "cast_out sample_library (16::int) (Atomic ''PriorityValue'') = Inr (''PriorityValue'', 16)"
    "cast_out sample_library (16::int) ?dt = Inr (''Array'', 16)"
    by (simp_all add: sample_library_def)
  have rv: "response_values (sample_waiting 10) = []"
    by (simp add: sample_waiting_def)
  note inst = array_index_decoding [where lib = sample_library and dt = ?dt
      and s = "sample_waiting 10"]
  show ?thesis
    using reg cast rv
      inst [where apdu = "sample_ack 1 ''priorityArray'' (Some 0) 16"
        and c = "\<lparr>ioRequest = sample_request 1,
                  ioResponse = Some (sample_ack 1 ''priorityArray'' (Some 0) 16),
                  ioError = None\<rparr>"]
      inst [where apdu = "sample_ack 1 ''priorityArray'' (Some 3) 16"
        and c = "\<lparr>ioRequest = sample_request 1,
                  ioResponse = Some (sample_ack 1 ''priorityArray'' (Some 3) 16),
                  ioError = None\<rparr>"]
      inst [where apdu = "sample_ack 1 ''priorityArray'' None 16"
        and c = "\<lparr>ioRequest = sample_request 1,
                  ioResponse = Some (sample_ack 1 ''priorityArray'' None 16),
                  ioError = None\<rparr>"]
    by (simp add: sample_ack_def)
qed

text \<open>
  Claim C2, as amended. For a completion that carries a response whose object
  type and property the registry cannot resolve, the handler raises
  \<open>TypeError("unknown datatype")\<close>: it leaves the state as it found it, so no
  outcome is appended for the point and no further \<open>next_request\<close> is deferred.
\<close>

theorem unknown_datatype_raises:
  assumes "ioResponse c = Some apdu"
    and "get_datatype lib (fst (objectIdentifier apdu)) (propertyIdentifier apdu) = None"
  shows "complete_request lib s c = Inl (TypeError ''unknown datatype'', s)"
  using assms by (simp add: complete_request_def decode_value_def)

theorem unknown_datatype_raises_witness:
  "get_datatype sample_library ''analogValue'' ''units'' = None
   \<and> complete_request sample_library (sample_waiting 10)
        \<lparr>ioRequest = sample_request 1,
         ioResponse = Some (sample_ack 1 ''units'' None 95),
         ioError = (None :: string option)\<rparr>
     = Inl (TypeError ''unknown datatype'', sample_waiting 10)"
proof -
  have reg: "get_datatype sample_library ''analogValue'' ''units'' = None"
    by (simp add: sample_library_def)
  show ?thesis
    using reg
      unknown_datatype_raises [where lib = sample_library and s = "sample_waiting 10"
        and apdu = "sample_ack 1 ''units'' None 95"
        and c = "\<lparr>ioRequest = sample_request 1,
                  ioResponse = Some (sample_ack 1 ''units'' None 95), ioError = None\<rparr>"]
    by (simp add: sample_ack_def)
qed

text \<open>
  The claim as it was stated fails on the sample's own list: when the first point
  is answered with a property unknown to the registry, no \<open>ProtocolError\<close> is
  recorded and the run does not go on to the second point. Nothing is deferred
  or in flight afterwards, while the second point is still queued.
\<close>

theorem unknown_datatype_counterexample:
  "exec sample_library
     [Tick 0, RunDeferred,
      Completion \<lparr>ioRequest = sample_request 1,
                  ioResponse = Some (sample_ack 1 ''units'' None 95),
                  ioError = (None :: string option)\<rparr>]
     (sample_waiting 10)
   = Some \<lparr>point_queue = [(''10.0.1.14'', ''analogValue:2'', ''presentValue'')],
           response_values = [], decay = 10, task_installed = False,
           deferredFns = [], running = True, io_pending = [],
           io_log = [sample_request 1], stderr = []\<rparr>"
  by (simp add: step_def process_task_def double_round_evals next_request_def complete_request_def
      decode_value_def deferred_def suspend_task_def request_io_def
      sample_waiting_def sample_points_def sample_library_def sample_request_def
      sample_ack_def)

text \<open>
  Claim C8. For a completion that carries a protocol error and no response, the
  handler appends the error as a \<open>ProtocolError\<close> outcome, appends no decoded
  value, and defers the next \<open>next_request\<close>: the loop keeps running, with the
  advance to the following point queued.
\<close>

theorem protocol_error_completion:
  assumes "ioResponse c = None" and "ioError c = Some err"
  shows "complete_request lib s c =
           Inr (deferred NextRequest
                  (s\<lparr>response_values := response_values s @ [ProtocolError err]\<rparr>))
       \<and> (running s \<and> ioRequest c \<in> set (io_pending s) \<longrightarrow>
            (\<exists>s'. step lib (Completion c) s = Some s'
               \<and> response_values s' = response_values s @ [ProtocolError err]
               \<and> deferredFns s' = deferredFns s @ [NextRequest]
               \<and> running s'))"
  using assms by (simp add: complete_request_def step_def deferred_def)

theorem protocol_error_completion_witness:
  "ioResponse \<lparr>ioRequest = sample_request 1, ioResponse = (None :: int apdu option),
               ioError = Some ''reject''\<rparr> = None
   \<and> complete_request sample_library
        ((sample_waiting 10)\<lparr>task_installed := False, io_log := [sample_request 1]\<rparr>)
        \<lparr>ioRequest = sample_request 1, ioResponse = None, ioError = Some ''reject''\<rparr>
     = Inr ((sample_waiting 10)
              \<lparr>task_installed := False, io_log := [sample_request 1],
               response_values := [ProtocolError ''reject''],
               deferredFns := [NextRequest]\<rparr>)"
  using protocol_error_completion [where lib = sample_library and err = "''reject''"
      and s = "(sample_waiting 10)\<lparr>task_installed := False, io_log := [sample_request 1]\<rparr>"
      and c = "\<lparr>ioRequest = sample_request 1, ioResponse = None, ioError = Some ''reject''\<rparr>"]
  by (simp add: deferred_def sample_waiting_def)

section \<open>The result dump\<close>

text \<open>
  Claim C10. After the loop has ended, \<open>main\<close> prints one line for each position
  that both the point list and the response values have, pairing them by
  position. When there are fewer response values than points, the lines are
  those of the completed prefix of the point list, one for each response value;
  the dump is a plain list of lines in every case.
\<close>

theorem result_dump_pairs_prefix:
  "length (dump point_list s) = min (length point_list) (length (response_values s))
   \<and> (\<forall>i < length (dump point_list s).
        dump point_list s ! i = (point_list ! i, response_values s ! i))
   \<and> (length (response_values s) \<le> length point_list \<longrightarrow>
        length (dump point_list s) = length (response_values s)
        \<and> map fst (dump point_list s) = take (length (response_values s)) point_list
        \<and> map snd (dump point_list s) = response_values s)"
  by (auto simp: dump_def map_fst_zip_take map_snd_zip_take min_absorb2)

theorem result_dump_pairs_prefix_witness:
  "length (response_values
             ((sample_waiting 10)\<lparr>response_values := [DecodedValue (''Real'', 72)]\<rparr>))
     \<le> length sample_points
   \<and> dump sample_points
        ((sample_waiting 10)\<lparr>response_values := [DecodedValue (''Real'', 72)]\<rparr>)
     = [((''10.0.1.14'', ''analogValue:1'', ''presentValue''), DecodedValue (''Real'', 72))]
   \<and> dump sample_points (sample_waiting 10) = []"
  using result_dump_pairs_prefix [where point_list = sample_points
      and s = "(sample_waiting 10)\<lparr>response_values := [DecodedValue (''Real'', 72)]\<rparr>"]
  by (simp add: dump_def sample_waiting_def sample_points_def)

section \<open>Steps of the event loop\<close>

lemma step_Tick:
  "step lib (Tick st) s =
     (if running s \<and> task_installed s then Some (process_task s st) else None)"
  by (simp add: step_def)

lemma step_RunDeferred:
  "step lib RunDeferred s =
     (if running s \<and> deferredFns s \<noteq> []
      then Some (after (next_request lib (s\<lparr>deferredFns := tl (deferredFns s)\<rparr>)))
      else None)"
  by (cases "deferredFns s") (simp_all add: step_def)

lemma step_Completion:
  "step lib (Completion c) s =
     (if running s \<and> ioRequest c \<in> set (io_pending s)
      then Some (after (complete_request lib
                          (s\<lparr>io_pending := remove1 (ioRequest c) (io_pending s)\<rparr>) c))
      else None)"
  by (simp add: step_def)

lemma step_running: "step lib ev s = Some s' \<Longrightarrow> running s"
  by (simp add: step_def split: if_splits)

lemma exec_append:
  "exec lib (xs @ ys) s = (case exec lib xs s of None \<Rightarrow> None | Some s' \<Rightarrow> exec lib ys s')"
  by (induction xs arbitrary: s) (simp_all split: option.splits)


lemma exec_invariant:
  assumes "exec lib evs s = Some s'" and "P s"
    and "\<And>ev t t'. ev \<in> set evs \<Longrightarrow> P t \<Longrightarrow> step lib ev t = Some t' \<Longrightarrow> P t'"
  shows "P s'"
  using assms
proof (induction evs arbitrary: s)
  case Nil
  then show ?case by simp
next
  case (Cons ev evs)
  from Cons.prems(1) obtain t where t: "step lib ev s = Some t" "exec lib evs t = Some s'"
    by (auto split: option.splits)
  have pt: "P t"
    by (rule Cons.prems(3) [of ev s t]) (simp_all add: Cons.prems(2) t(1))
  show ?case
  proof (rule Cons.IH [OF t(2) pt])
    fix ev' u u'
    assume "ev' \<in> set evs" "P u" "step lib ev' u = Some u'"
    then show "P u'" using Cons.prems(3) [of ev' u u'] by simp
  qed
qed

lemma after_next_request_cases:
  "after (next_request lib s) =
     (case point_queue s of
        [] \<Rightarrow> stop s
      | p # rest \<Rightarrow>
          (case build_request lib p of
             Inl e \<Rightarrow> s\<lparr>point_queue := rest\<rparr>
           | Inr r \<Rightarrow> request_io r (s\<lparr>point_queue := rest\<rparr>)))"
  by (simp add: next_request_def Let_def split: list.splits sum.splits)

lemma single_flight_step:
  assumes "single_flight s" and "step lib ev s = Some s'"
  shows "single_flight s'"
proof (cases ev)
  case (Tick st)
  with assms show ?thesis
    by (auto simp: step_Tick single_flight_def process_task_def double_round_evals Let_def deferred_def
        suspend_task_def stop_def split: if_splits)
next
  case RunDeferred
  with assms show ?thesis
    by (cases "deferredFns s")
       (auto simp: step_RunDeferred single_flight_def after_next_request_cases
          request_io_def stop_def split: if_splits list.splits sum.splits)
next
  case (Completion c)
  with assms have pend: "io_pending s = [ioRequest c]" and dfn: "deferredFns s = []"
    and run: "running s" and ninst: "\<not> task_installed s"
    by (cases "io_pending s"; cases "deferredFns s";
        auto simp: step_Completion single_flight_def split: if_splits)+
  from assms Completion pend dfn run ninst show ?thesis
    by (auto simp: step_Completion single_flight_def complete_request_def deferred_def
        split: if_splits option.splits sum.splits)
qed

lemma single_flight_exec:
  "single_flight s \<Longrightarrow> exec lib evs s = Some s' \<Longrightarrow> single_flight s'"
  by (rule exec_invariant [where P = single_flight]) (auto intro: single_flight_step)

lemma main_with_state:
  "main_with interval point_list = Inr s0 \<longleftrightarrow>
     interval \<noteq> 0 \<and>
     s0 = \<lparr>point_queue = point_list, response_values = [],
           decay = double_round (5 * 1000 / of_int interval),
           task_installed = True, deferredFns = [], running = True,
           io_pending = [], io_log = [], stderr = []\<rparr>"
  by (auto simp: main_with_def PrairieDog_init_def ReadPointListApplication_init_def
      install_task_def)

lemma main_with_single_flight: "main_with interval point_list = Inr s0 \<Longrightarrow> single_flight s0"
  by (auto simp: main_with_state single_flight_def)

section \<open>Waiting for the registration\<close>

lemma waiting_only_ticks:
  assumes "deferredFns s = []" and "io_pending s = []" and "step lib ev s = Some s'"
  shows "\<exists>st. ev = Tick st"
  using assms by (cases ev) (simp_all add: step_RunDeferred step_Completion)




lemma failed_tick_keeps_waiting:
  assumes "step lib (Tick st) s = Some t" and "deferredFns s = []" and "io_pending s = []"
    and "st \<noteq> 0"
  shows "deferredFns t = [] \<and> io_pending t = []"
proof -
  from assms(1) have t: "t = process_task s st"
    by (simp add: step_Tick split: if_splits)
  show ?thesis
    unfolding t using assms(2-4)
    by (simp add: process_task_def double_round_evals Let_def stop_def)
qed

lemma no_success_only_ticks:
  assumes "exec lib evs s = Some s'" and "\<forall>ev \<in> set evs. \<not> is_success_tick ev"
    and "deferredFns s = []" and "io_pending s = []"
  shows "\<exists>sts. evs = map Tick sts \<and> (\<forall>st \<in> set sts. st \<noteq> 0)"
  using assms
proof (induction evs arbitrary: s)
  case Nil
  then show ?case by simp
next
  case (Cons ev evs)
  from Cons.prems(1) obtain t where t: "step lib ev s = Some t" "exec lib evs t = Some s'"
    by (cases "step lib ev s") simp_all
  from waiting_only_ticks [OF Cons.prems(3,4) t(1)] obtain st where ev: "ev = Tick st" ..
  from Cons.prems(2) have st0: "st \<noteq> 0" by (simp add: ev)
  from t(1) have "step lib (Tick st) s = Some t" by (simp only: ev)
  from failed_tick_keeps_waiting [OF this Cons.prems(3,4) st0]
  have wt: "deferredFns t = []" "io_pending t = []" by simp_all
  from Cons.prems(2) have rest: "\<forall>ev \<in> set evs. \<not> is_success_tick ev" by simp
  from Cons.IH [OF t(2) rest wt]
  obtain sts where sts: "evs = map Tick sts" "\<forall>st \<in> set sts. st \<noteq> 0" by blast
  have "ev # evs = map Tick (st # sts)" by (simp add: ev sts(1))
  moreover have "\<forall>x \<in> set (st # sts). x \<noteq> 0" using st0 sts(2) by simp
  ultimately show ?case by (intro exI [of _ "st # sts"] conjI)
qed


lemma main_with_waiting:
  assumes "main_with interval point_list = Inr s0"
  shows "running s0" and "task_installed s0" and "deferredFns s0 = []"
    and "io_pending s0 = []" and "io_log s0 = []" and "response_values s0 = []"
    and "stderr s0 = []" and "point_queue s0 = point_list"
    and "decay s0 = double_round (5 * 1000 / of_int interval)" and "interval \<noteq> 0"
  using assms by (simp_all add: main_with_state)








text \<open>
  Claim C6 at the poll interval 400. The floor of \<open>5000 / 400\<close> is 12, but the
  counter starts at the float 12.5; after 12 failed polls it is 0.5, not zero,
  and the loop still runs; the next poll takes it to -0.5, past zero, so it is
  never equal to 0 and the registration failure is never reported. At the
  interval 500 of \<open>main\<close> the counter starts at 10 and is 0 after 10 failed polls.
\<close>

theorem decay_budget_not_floored:
  "main_with 400 sample_points = Inr (sample_waiting (25 / 2))
   \<and> (5000 :: int) div 400 = 12
   \<and> decay (sample_waiting (25 / 2)) \<noteq> 12
   \<and> exec sample_library (map Tick [-1, -1, -1, -1, -1, -1, -1, -1, -1, -1, -1, -1])
        (sample_waiting (25 / 2))
       = Some (sample_waiting (1 / 2))
   \<and> running (sample_waiting (1 / 2))
   \<and> decay (sample_waiting (1 / 2)) \<noteq> 0
   \<and> exec sample_library [Tick (-1)] (sample_waiting (1 / 2))
       = Some (sample_waiting (- 1 / 2))
   \<and> main_start sample_points = Inr (sample_waiting 10)
   \<and> exec sample_library (map Tick [-1, -1, -1, -1, -1, -1, -1, -1, -1, -1]) (sample_waiting 10)
       = Some ((sample_waiting 10)\<lparr>decay := 0, stderr := [''registration failed\<newline>''],
                                    running := False\<rparr>)"
proof -
  have start: "main_with 400 sample_points = Inr (sample_waiting (25 / 2))"
  proof -
    have "double_round (5 * 1000 / of_int 400) = 25 / 2" by code_simp
    then show ?thesis by (simp add: main_with_state sample_waiting_def)
  qed
  have halves:
    "double_round (23 / 2) = 23 / 2" "double_round (21 / 2) = 21 / 2"
    "double_round (19 / 2) = 19 / 2" "double_round (17 / 2) = 17 / 2"
    "double_round (15 / 2) = 15 / 2" "double_round (13 / 2) = 13 / 2"
    "double_round (11 / 2) = 11 / 2" "double_round (9 / 2) = 9 / 2"
    "double_round (7 / 2) = 7 / 2" "double_round (5 / 2) = 5 / 2"
    "double_round (3 / 2) = 3 / 2" "double_round (1 / 2) = 1 / 2"
    "double_round (- (1 / 2)) = - (1 / 2)" "double_round (- 1 / 2) = - 1 / 2"
    by code_simp+
  have tick: "step sample_library (Tick (- 1)) (sample_waiting d)
      = Some (sample_waiting (double_round (d - 1)))"
    if "double_round (d - 1) \<noteq> 0" for d
    using that by (simp add: step_Tick process_task_def Let_def sample_waiting_def)
  have polls: "exec sample_library (map Tick [-1, -1, -1, -1, -1, -1, -1, -1, -1, -1, -1, -1])
        (sample_waiting (25 / 2)) = Some (sample_waiting (1 / 2))"
    by (simp add: tick halves)
  have next_poll: "exec sample_library [Tick (-1)] (sample_waiting (1 / 2))
       = Some (sample_waiting (- 1 / 2))"
    by (simp add: tick halves)
  have main: "main_start sample_points = Inr (sample_waiting 10)"
    by (simp add: main_start_def main_with_state double_round_evals sample_waiting_def)
  have ten: "exec sample_library (map Tick [-1, -1, -1, -1, -1, -1, -1, -1, -1, -1])
      (sample_waiting 10)
       = Some ((sample_waiting 10)\<lparr>decay := 0, stderr := [''registration failed\<newline>''],
                                    running := False\<rparr>)"
    by (simp add: step_Tick process_task_def double_round_evals Let_def stop_def
        sample_waiting_def)
  show ?thesis
    using start polls next_poll main ten by (simp add: sample_waiting_def)
qed

section \<open>The monitor hands over once\<close>

lemma step_task_installed:
  assumes "step lib ev s = Some t"
  shows "task_installed t = (task_installed s \<and> \<not> is_success_tick ev)"
proof (cases ev)
  case (Tick st)
  with assms show ?thesis
    by (auto simp: step_Tick process_task_def double_round_evals Let_def deferred_def suspend_task_def stop_def
        split: if_splits)
next
  case RunDeferred
  with assms show ?thesis
    by (auto simp: step_RunDeferred after_next_request_cases request_io_def stop_def
        split: if_splits list.splits sum.splits)
next
  case (Completion c)
  with assms show ?thesis
    by (auto simp: step_Completion complete_request_def deferred_def
        split: if_splits option.splits sum.splits)
qed

lemma exec_task_installed:
  "exec lib evs s = Some s' \<Longrightarrow>
     task_installed s' = (task_installed s \<and> (\<forall>ev \<in> set evs. \<not> is_success_tick ev))"
proof (induction evs arbitrary: s)
  case Nil
  then show ?case by simp
next
  case (Cons ev evs)
  from Cons.prems obtain t where t: "step lib ev s = Some t" "exec lib evs t = Some s'"
    by (cases "step lib ev s") simp_all
  show ?case
    using Cons.IH [OF t(2)] step_task_installed [OF t(1)] by auto
qed

lemma suspended_no_success:
  assumes "exec lib evs s = Some s'" and "\<not> task_installed s"
  shows "\<forall>ev \<in> set evs. \<not> is_success_tick ev"
  using assms
proof (induction evs arbitrary: s)
  case Nil
  then show ?case by simp
next
  case (Cons ev evs)
  from Cons.prems(1) obtain t where t: "step lib ev s = Some t" "exec lib evs t = Some s'"
    by (cases "step lib ev s") simp_all
  have ev: "\<not> is_success_tick ev"
    using t(1) Cons.prems(2) by (cases ev) (simp_all add: step_Tick)
  have "\<not> task_installed t"
    using step_task_installed [OF t(1)] Cons.prems(2) by simp
  from Cons.IH [OF t(2) this] ev show ?case by simp
qed

lemma success_at_most_once:
  "exec lib evs s = Some s' \<Longrightarrow> length (filter is_success_tick evs) \<le> 1"
proof (induction evs arbitrary: s)
  case Nil
  then show ?case by simp
next
  case (Cons ev evs)
  from Cons.prems obtain t where t: "step lib ev s = Some t" "exec lib evs t = Some s'"
    by (cases "step lib ev s") simp_all
  show ?case
  proof (cases "is_success_tick ev")
    case True
    then have "\<not> task_installed t" using step_task_installed [OF t(1)] by simp
    from suspended_no_success [OF t(2) this] have "filter is_success_tick evs = []"
      by (simp add: filter_empty_conv)
    then show ?thesis using True by simp
  next
    case False
    then show ?thesis using Cons.IH [OF t(2)] by simp
  qed
qed

lemma success_tick_defers:
  assumes "running s" and "task_installed s" and "deferredFns s = []"
  shows "step lib (Tick 0) s = Some (s\<lparr>deferredFns := [NextRequest], task_installed := False\<rparr>)"
  using assms by (simp add: step_Tick process_task_def double_round_evals deferred_def suspend_task_def)

lemma failed_poll_defers_nothing:
  assumes "st \<noteq> 0"
  shows "deferredFns (process_task s st) = deferredFns s
       \<and> io_log (process_task s st) = io_log s
       \<and> task_installed (process_task s st) = task_installed s"
  using assms by (simp add: process_task_def double_round_evals Let_def stop_def)

text \<open>
  Claim C4. In every run from the start of \<open>main\<close>: at most one tick observes the
  successful status, and the monitor stays installed exactly as long as none has,
  so it is suspended from the success on. While it is installed only ticks have
  happened, and no request has been sent nor an advance deferred. The successful
  tick itself only queues one \<open>next_request\<close> for the loop and suspends the monitor;
  it sends nothing. A tick with any other status defers nothing and leaves the
  monitor installed.
\<close>

theorem first_request_deferred_once:
  assumes "main_with interval point_list = Inr s0" and "exec lib evs s0 = Some s"
  shows "length (filter is_success_tick evs) \<le> 1
       \<and> (task_installed s \<longleftrightarrow> filter is_success_tick evs = [])
       \<and> (task_installed s \<longrightarrow>
            io_log s = [] \<and> deferredFns s = [] \<and> (\<exists>sts. evs = map Tick sts))
       \<and> (running s \<and> task_installed s \<longrightarrow>
            step lib (Tick 0) s =
              Some (s\<lparr>deferredFns := [NextRequest], task_installed := False\<rparr>))
       \<and> (\<forall>st. st \<noteq> 0 \<longrightarrow>
            deferredFns (process_task s st) = deferredFns s
            \<and> io_log (process_task s st) = io_log s
            \<and> task_installed (process_task s st) = task_installed s)"
proof -
  note w = main_with_waiting [OF assms(1)]
  have sf: "single_flight s"
    by (rule single_flight_exec [OF main_with_single_flight [OF assms(1)] assms(2)])
  have once: "length (filter is_success_tick evs) \<le> 1"
    by (rule success_at_most_once [OF assms(2)])
  have inst: "task_installed s \<longleftrightarrow> filter is_success_tick evs = []"
    using exec_task_installed [OF assms(2)] w(2) by (simp add: filter_empty_conv)
  have waiting: "io_log s = [] \<and> deferredFns s = [] \<and> (\<exists>sts. evs = map Tick sts)"
    if "task_installed s"
  proof -
    from that inst have "\<forall>ev \<in> set evs. \<not> is_success_tick ev"
      by (simp add: filter_empty_conv)
    from no_success_only_ticks [OF assms(2) this w(3,4)]
    have "\<exists>sts. evs = map Tick sts" by blast
    then show ?thesis using sf that by (simp add: single_flight_def)
  qed
  have handover: "step lib (Tick 0) s =
      Some (s\<lparr>deferredFns := [NextRequest], task_installed := False\<rparr>)"
    if "running s" "task_installed s"
    using that waiting by (intro success_tick_defers) simp_all
  show ?thesis
    using once inst waiting handover failed_poll_defers_nothing [of _ s] by blast
qed

theorem first_request_deferred_once_witness:
  "main_with 500 sample_points = Inr (sample_waiting 10)
   \<and> exec sample_library (map Tick [-1, -1]) (sample_waiting 10) = Some (sample_waiting 8)
   \<and> io_log (sample_waiting 8) = []
   \<and> step sample_library (Tick 0) (sample_waiting 8)
       = Some ((sample_waiting 8)\<lparr>deferredFns := [NextRequest], task_installed := False\<rparr>)
   \<and> step sample_library (Tick 0)
        ((sample_waiting 8)\<lparr>deferredFns := [NextRequest], task_installed := False\<rparr>) = None"
proof -
  let ?evs = "map Tick [-1, -1] :: (int, string) event list"
  have start: "main_with 500 sample_points = Inr (sample_waiting 10)"
    by (simp add: main_with_state double_round_evals sample_waiting_def)
  have run: "exec sample_library ?evs (sample_waiting 10) = Some (sample_waiting 8)"
    by (simp add: step_Tick process_task_def double_round_evals Let_def sample_waiting_def)
  have wait: "running (sample_waiting 8) \<and> task_installed (sample_waiting 8)"
    by (simp add: sample_waiting_def)
  from first_request_deferred_once [OF start run] wait
  have "io_log (sample_waiting 8) = []
      \<and> step sample_library (Tick 0) (sample_waiting 8)
          = Some ((sample_waiting 8)\<lparr>deferredFns := [NextRequest], task_installed := False\<rparr>)"
    by simp
  moreover have "step sample_library (Tick 0)
        ((sample_waiting 8)\<lparr>deferredFns := [NextRequest], task_installed := False\<rparr>) = None"
    by (simp add: step_Tick)
  ultimately show ?thesis using start run by simp
qed

section \<open>No guard in the advance\<close>

text \<open>
  Claim C9, as amended. \<open>next_request\<close> has no guard against a request in flight
  and never looks at what is in flight. In any state whatever: with an empty
  queue it stops the loop; with a point queued whose request can be built it
  dequeues the point and submits the request, next to whatever is in flight,
  without raising; with a point queued whose request cannot be built it raises
  the constructor's exception, the point already dequeued. No case raises for a
  request in flight.
\<close>

theorem advance_has_no_reentry_guard:
  "(point_queue t = [] \<longrightarrow> next_request lib t = Inr (stop t))
   \<and> (\<forall>p rest r. point_queue t = p # rest \<and> build_request lib p = Inr r \<longrightarrow>
        next_request lib t =
          Inr (t\<lparr>point_queue := rest, io_pending := io_pending t @ [r],
                  io_log := io_log t @ [r]\<rparr>))
   \<and> (\<forall>p rest e. point_queue t = p # rest \<and> build_request lib p = Inl e \<longrightarrow>
        next_request lib t = Inl (e, t\<lparr>point_queue := rest\<rparr>))"
  by (simp add: next_request_def request_io_def)

text \<open>
  The claim as it was stated fails: called with the request of the first point
  still in flight, \<open>next_request\<close> returns normally and has put the request of the
  second point in flight next to it.
\<close>

theorem advance_unguarded_counterexample:
  "next_request sample_library
     \<lparr>point_queue = [(''10.0.1.14'', ''analogValue:2'', ''presentValue'')],
      response_values = ([] :: (string \<times> int, string) outcome list), decay = 10,
      task_installed = False, deferredFns = [], running = True,
      io_pending = [sample_request 1], io_log = [sample_request 1], stderr = []\<rparr>
   = Inr \<lparr>point_queue = [], response_values = [], decay = 10,
          task_installed = False, deferredFns = [], running = True,
          io_pending = [sample_request 1, sample_request 2],
          io_log = [sample_request 1, sample_request 2], stderr = []\<rparr>"
  by (simp add: next_request_def request_io_def sample_library_def sample_request_def)

theorem advance_has_no_reentry_guard_witness:
  "point_queue ((sample_waiting 10)\<lparr>task_installed := False,
                  io_pending := [sample_request 2], io_log := [sample_request 2]\<rparr>)
     = (''10.0.1.14'', ''analogValue:1'', ''presentValue'')
       # [(''10.0.1.14'', ''analogValue:2'', ''presentValue'')]
   \<and> build_request sample_library (''10.0.1.14'', ''analogValue:1'', ''presentValue'')
       = Inr (sample_request 1)
   \<and> next_request sample_library
        ((sample_waiting 10)\<lparr>task_installed := False,
           io_pending := [sample_request 2], io_log := [sample_request 2]\<rparr>)
       = Inr ((sample_waiting 10)
               \<lparr>point_queue := [(''10.0.1.14'', ''analogValue:2'', ''presentValue'')],
                task_installed := False,
                io_pending := [sample_request 2, sample_request 1],
                io_log := [sample_request 2, sample_request 1]\<rparr>)"
proof -
  let ?t = "(sample_waiting 10)\<lparr>task_installed := False,
              io_pending := [sample_request 2], io_log := [sample_request 2]\<rparr>"
  have q: "point_queue ?t
     = (''10.0.1.14'', ''analogValue:1'', ''presentValue'')
       # [(''10.0.1.14'', ''analogValue:2'', ''presentValue'')]"
    by (simp add: sample_waiting_def sample_points_def)
  have b: "build_request sample_library (''10.0.1.14'', ''analogValue:1'', ''presentValue'')
       = Inr (sample_request 1)"
    by (simp add: sample_library_def sample_request_def)
  from advance_has_no_reentry_guard [of ?t sample_library] q b
  have "next_request sample_library ?t =
      Inr (?t\<lparr>point_queue := [(''10.0.1.14'', ''analogValue:2'', ''presentValue'')],
              io_pending := io_pending ?t @ [sample_request 1],
              io_log := io_log ?t @ [sample_request 1]\<rparr>)"
    by blast
  then show ?thesis using q b by (simp add: sample_waiting_def)
qed

section \<open>Results and requests\<close>

lemma answers_complete:
  assumes "answers lib c out"
  shows "complete_request lib s c =
           Inr (deferred NextRequest (s\<lparr>response_values := response_values s @ [out]\<rparr>))"
  using assms
  by (cases out) (auto simp: complete_request_def split: option.splits)

lemma clean_answers: "clean lib c \<Longrightarrow> \<exists>out. answers lib c out"
proof -
  assume c: "clean lib c"
  show ?thesis
  proof (cases "ioResponse c")
    case None
    with c obtain err where "ioError c = Some err" by (auto simp: clean_def)
    with None have "answers lib c (ProtocolError err)" by simp
    then show ?thesis ..
  next
    case (Some apdu)
    with c have e: "ioError c = None" and d: "\<not> isl (decode_value lib apdu)"
      by (simp_all add: clean_def)
    from d obtain v where "decode_value lib apdu = Inr v"
      by (cases "decode_value lib apdu") simp_all
    with Some e have "answers lib c (DecodedValue v)" by simp
    then show ?thesis ..
  qed
qed

lemma step_results:
  assumes "step lib ev s = Some t" and "\<forall>c \<in> set (completions [ev]). clean lib c"
  shows "length (response_values t) = length (response_values s) + length (completions [ev])"
proof (cases ev)
  case (Tick st)
  with assms(1) show ?thesis
    by (auto simp: step_Tick process_task_def double_round_evals Let_def deferred_def suspend_task_def stop_def
        split: if_splits)
next
  case RunDeferred
  with assms(1) show ?thesis
    by (auto simp: step_RunDeferred after_next_request_cases request_io_def stop_def
        split: if_splits list.splits sum.splits)
next
  case (Completion c)
  with assms(2) have "clean lib c" by simp
  then obtain out where "answers lib c out" using clean_answers by blast
  from answers_complete [OF this] assms(1) Completion show ?thesis
    by (auto simp: step_Completion deferred_def split: if_splits)
qed

lemma completions_Cons: "completions (ev # evs) = completions [ev] @ completions evs"
  by (cases ev) simp_all

lemma exec_results:
  assumes "exec lib evs s = Some s'" and "\<forall>c \<in> set (completions evs). clean lib c"
  shows "length (response_values s') = length (response_values s) + length (completions evs)"
  using assms
proof (induction evs arbitrary: s)
  case Nil
  then show ?case by simp
next
  case (Cons ev evs)
  from Cons.prems(1) obtain t where t: "step lib ev s = Some t" "exec lib evs t = Some s'"
    by (cases "step lib ev s") simp_all
  have split: "completions (ev # evs) = completions [ev] @ completions evs"
    by (rule completions_Cons)
  have c1: "\<forall>c \<in> set (completions [ev]). clean lib c"
    and c2: "\<forall>c \<in> set (completions evs). clean lib c"
    using Cons.prems(2) unfolding split by simp_all
  from step_results [OF t(1) c1] Cons.IH [OF t(2) c2] show ?case
    unfolding split by simp
qed

lemma counted_step:
  assumes "counted s" and "step lib ev s = Some t"
    and "\<forall>c \<in> set (completions [ev]). clean lib c"
  shows "counted t"
proof (cases ev)
  case (Tick st)
  with assms(1,2) show ?thesis
    by (auto simp: counted_def step_Tick process_task_def double_round_evals Let_def deferred_def suspend_task_def
        stop_def split: if_splits)
next
  case RunDeferred
  with assms(1,2) show ?thesis
    by (auto simp: counted_def step_RunDeferred after_next_request_cases request_io_def
        stop_def split: if_splits list.splits sum.splits)
next
  case (Completion c)
  with assms(3) have "clean lib c" by simp
  then obtain out where "answers lib c out" using clean_answers by blast
  note appended = answers_complete [OF this]
  from assms(2) Completion have mem: "ioRequest c \<in> set (io_pending s)"
    by (simp add: step_Completion split: if_splits)
  then have "length (io_pending s) > 0" by (cases "io_pending s") simp_all
  with mem have len: "Suc (length (remove1 (ioRequest c) (io_pending s))) = length (io_pending s)"
    by (simp add: length_remove1)
  from assms(2) Completion mem
  have t: "t = after (complete_request lib
                        (s\<lparr>io_pending := remove1 (ioRequest c) (io_pending s)\<rparr>) c)"
    by (simp add: step_Completion split: if_splits)
  show ?thesis
    using assms(1) len unfolding t appended counted_def
    by (simp add: deferred_def)
qed

lemma counted_exec:
  assumes "counted s" and "exec lib evs s = Some s'"
    and "\<forall>c \<in> set (completions evs). clean lib c"
  shows "counted s'"
  using assms
proof (induction evs arbitrary: s)
  case Nil
  then show ?case by simp
next
  case (Cons ev evs)
  from Cons.prems(2) obtain t where t: "step lib ev s = Some t" "exec lib evs t = Some s'"
    by (cases "step lib ev s") simp_all
  have split: "completions (ev # evs) = completions [ev] @ completions evs"
    by (rule completions_Cons)
  have c1: "\<forall>c \<in> set (completions [ev]). clean lib c"
    and c2: "\<forall>c \<in> set (completions evs). clean lib c"
    using Cons.prems(3) unfolding split by simp_all
  from Cons.IH [OF counted_step [OF Cons.prems(1) t(1) c1] t(2) c2] show ?case .
qed

lemma in_order_step:
  assumes "in_order lib point_list s" and "\<forall>p \<in> set point_list. \<not> isl (build_request lib p)"
    and "step lib ev s = Some t"
  shows "in_order lib point_list t"
proof (cases ev)
  case (Tick st)
  with assms(1,3) show ?thesis
    by (auto simp: in_order_def step_Tick process_task_def double_round_evals Let_def deferred_def
        suspend_task_def stop_def split: if_splits)
next
  case RunDeferred
  show ?thesis
  proof (cases "point_queue s")
    case Nil
    with assms(1,3) RunDeferred show ?thesis
      by (auto simp: in_order_def step_RunDeferred after_next_request_cases stop_def
          split: if_splits)
  next
    case (Cons p rest)
    with assms(1) have "build_request lib p \<in> set (map (build_request lib) point_list)"
      by (simp add: in_order_def)
    then obtain q where "q \<in> set point_list" "build_request lib q = build_request lib p"
      by auto
    with assms(2) have "\<not> isl (build_request lib p)" by metis
    then obtain r where r: "build_request lib p = Inr r"
      by (cases "build_request lib p") simp_all
    with assms(1,3) RunDeferred Cons show ?thesis
      by (auto simp: in_order_def step_RunDeferred after_next_request_cases request_io_def
          split: if_splits)
  qed
next
  case (Completion c)
  with assms(1,3) show ?thesis
    by (auto simp: in_order_def step_Completion complete_request_def deferred_def
        split: if_splits option.splits sum.splits)
qed

lemma in_order_exec:
  assumes "in_order lib point_list s" and "\<forall>p \<in> set point_list. \<not> isl (build_request lib p)"
    and "exec lib evs s = Some s'"
  shows "in_order lib point_list s'"
  by (rule exec_invariant [OF assms(3), where P = "in_order lib point_list"])
     (auto intro: assms(1) in_order_step [OF _ assms(2)])

lemma main_with_in_order: "main_with interval point_list = Inr s0 \<Longrightarrow> in_order lib point_list s0"
  by (simp add: main_with_state in_order_def)

lemma main_with_counted: "main_with interval point_list = Inr s0 \<Longrightarrow> counted s0"
  by (simp add: main_with_state counted_def)

lemma accounted_step:
  assumes "accounted point_list s" and "single_flight s" and "step lib ev s = Some t"
  shows "accounted point_list t"
proof (cases ev)
  case (Tick st)
  with assms(3) have "task_installed s" by (simp add: step_Tick split: if_splits)
  with assms(1) have "length (io_log s) + length (point_queue s) = length point_list"
    by (simp add: accounted_def)
  moreover from assms(3) Tick have "io_log t = io_log s \<and> point_queue t = point_queue s"
    by (auto simp: step_Tick process_task_def Let_def deferred_def suspend_task_def stop_def
        split: if_splits)
  ultimately show ?thesis by (simp add: accounted_def)
next
  case RunDeferred
  with assms(3) have d: "deferredFns s \<noteq> []" and r: "running s"
    by (simp_all add: step_RunDeferred split: if_splits)
  with assms(1) have eq: "length (io_log s) + length (point_queue s) = length point_list"
    by (simp add: accounted_def)
  from d assms(2) have idle: "tl (deferredFns s) = []" "io_pending s = []" "\<not> task_installed s"
    by (cases "deferredFns s"; auto simp: single_flight_def)+
  from assms(3) RunDeferred d r
  have t: "t = after (next_request lib (s\<lparr>deferredFns := tl (deferredFns s)\<rparr>))"
    by (simp add: step_RunDeferred)
  show ?thesis
    unfolding t using eq idle r
    by (auto simp: accounted_def after_next_request_cases request_io_def stop_def
        split: list.splits sum.splits)
next
  case (Completion c)
  with assms(3) have "io_pending s \<noteq> []" by (auto simp: step_Completion split: if_splits)
  with assms(1) have "length (io_log s) + length (point_queue s) = length point_list"
    by (simp add: accounted_def)
  moreover from assms(3) Completion have "io_log t = io_log s \<and> point_queue t = point_queue s"
    by (auto simp: step_Completion complete_request_def deferred_def
        split: if_splits option.splits sum.splits)
  ultimately show ?thesis by (simp add: accounted_def)
qed

lemma accounted_exec:
  assumes "accounted point_list s" and "single_flight s" and "exec lib evs s = Some s'"
  shows "accounted point_list s'"
  using assms
proof (induction evs arbitrary: s)
  case Nil
  then show ?case by simp
next
  case (Cons ev evs)
  from Cons.prems(3) obtain t where t: "step lib ev s = Some t" "exec lib evs t = Some s'"
    by (cases "step lib ev s") simp_all
  from Cons.IH [OF accounted_step [OF Cons.prems(1,2) t(1)]
      single_flight_step [OF Cons.prems(2) t(1)] t(2)]
  show ?case .
qed

lemma main_with_accounted:
  "main_with interval point_list = Inr s0 \<Longrightarrow> accounted point_list s0"
  by (simp add: main_with_state accounted_def)

lemma clean_complete:
  assumes "clean lib c"
  shows "(\<forall>apdu. ioResponse c = Some apdu \<longrightarrow>
           (\<exists>v. decode_value lib apdu = Inr v
              \<and> complete_request lib t c =
                  Inr (deferred NextRequest
                         (t\<lparr>response_values := response_values t @ [DecodedValue v]\<rparr>))))
       \<and> (ioResponse c = None \<longrightarrow>
           (\<exists>err. ioError c = Some err
              \<and> complete_request lib t c =
                  Inr (deferred NextRequest
                         (t\<lparr>response_values := response_values t @ [ProtocolError err]\<rparr>))))"
proof (cases "ioResponse c")
  case None
  with assms obtain err where e: "ioError c = Some err" by (auto simp: clean_def)
  with None have "answers lib c (ProtocolError err)" by simp
  from answers_complete [OF this] None e show ?thesis by simp
next
  case (Some apdu)
  with assms have e: "ioError c = None" and d: "\<not> isl (decode_value lib apdu)"
    by (simp_all add: clean_def)
  from d obtain v where v: "decode_value lib apdu = Inr v"
    by (cases "decode_value lib apdu") simp_all
  with Some e have "answers lib c (DecodedValue v)" by simp
  from answers_complete [OF this] Some v show ?thesis by simp
qed

text \<open>
  Claim C7, as amended. Take a run from the start of \<open>main\<close> in which every
  completion is clean, that is, carries exactly one of a response that decodes
  and an error. Then the number of response values equals the number of
  completions delivered. A clean completion makes the handler append exactly one
  outcome, the \<open>DecodedValue\<close> of the decoded response or the \<open>ProtocolError\<close> of
  the error, and defer the next advance. When the run has ended through the
  request driver (the loop stopped, the monitor suspended), the number of
  response values is the length of the point list. A completion whose response
  has no datatype in the registry raises and leaves the state as it was, nothing
  appended.
\<close>

theorem result_queue_counts_clean_completions:
  assumes "main_with interval point_list = Inr s0" and "exec lib evs s0 = Some s"
    and "\<forall>c \<in> set (completions evs). clean lib c"
  shows "length (response_values s) = length (completions evs)
       \<and> (\<forall>c t. clean lib c \<longrightarrow>
            (\<forall>apdu. ioResponse c = Some apdu \<longrightarrow>
               (\<exists>v. decode_value lib apdu = Inr v
                  \<and> complete_request lib (t :: ('v, 'e) state) c =
                      Inr (deferred NextRequest
                             (t\<lparr>response_values := response_values t @ [DecodedValue v]\<rparr>))))
            \<and> (ioResponse c = None \<longrightarrow>
               (\<exists>err. ioError c = Some err
                  \<and> complete_request lib t c =
                      Inr (deferred NextRequest
                             (t\<lparr>response_values :=
                                  response_values t @ [ProtocolError err]\<rparr>)))))
       \<and> (\<not> running s \<and> \<not> task_installed s \<longrightarrow>
            length (response_values s) = length point_list)
       \<and> (\<forall>c apdu t.
            ioResponse c = Some apdu
            \<and> get_datatype lib (fst (objectIdentifier apdu)) (propertyIdentifier apdu) = None
            \<longrightarrow>
            complete_request lib (t :: ('v, 'e) state) c
              = Inl (TypeError ''unknown datatype'', t))"
proof -
  note w = main_with_waiting [OF assms(1)]
  have n: "length (response_values s) = length (completions evs)"
    using exec_results [OF assms(2,3)] w(6) by simp
  have fin: "length (response_values s) = length point_list"
    if d: "\<not> running s" "\<not> task_installed s"
  proof -
    have sf0: "single_flight s0" by (rule main_with_single_flight [OF assms(1)])
    have sf: "single_flight s" by (rule single_flight_exec [OF sf0 assms(2)])
    with d have e: "point_queue s = []" "io_pending s = []" by (simp_all add: single_flight_def)
    have "accounted point_list s"
      by (rule accounted_exec [OF main_with_accounted [OF assms(1)] sf0 assms(2)])
    with d(1) e have "length (io_log s) = length point_list" by (simp add: accounted_def)
    moreover have "counted s"
      by (rule counted_exec [OF main_with_counted [OF assms(1)] assms(2,3)])
    ultimately show ?thesis using e by (simp add: counted_def)
  qed
  have raise: "complete_request lib t c = Inl (TypeError ''unknown datatype'', t)"
    if "ioResponse c = Some apdu"
      "get_datatype lib (fst (objectIdentifier apdu)) (propertyIdentifier apdu) = None"
    for c apdu and t :: "('v, 'e) state"
    using that by (simp add: complete_request_def decode_value_def)
  show ?thesis
    using n clean_complete [of lib] fin raise by blast
qed

text \<open>
  The claim as it was stated fails for a completion whose response the registry
  cannot resolve: after one failed poll, the success, the first request and its
  completion with an \<open>objectName\<close> response, one request has completed and no
  outcome has been recorded.
\<close>

theorem result_queue_count_counterexample:
  "exec sample_library
     [Tick (-1), Tick 0, RunDeferred,
      Completion \<lparr>ioRequest = sample_request 1,
                  ioResponse = Some (sample_ack 1 ''objectName'' None 5),
                  ioError = (None :: string option)\<rparr>]
     (sample_waiting 10)
   = Some ((sample_waiting 9)
            \<lparr>point_queue := [(''10.0.1.14'', ''analogValue:2'', ''presentValue'')],
             task_installed := False, io_log := [sample_request 1]\<rparr>)
   \<and> length (completions
        [Tick (-1), Tick 0, RunDeferred,
         Completion \<lparr>ioRequest = sample_request 1,
                     ioResponse = Some (sample_ack 1 ''objectName'' None 5),
                     ioError = (None :: string option)\<rparr>]) = 1
   \<and> length (response_values ((sample_waiting 9)
            \<lparr>point_queue := [(''10.0.1.14'', ''analogValue:2'', ''presentValue'')],
             task_installed := False, io_log := [sample_request 1]\<rparr>)) = 0"
  by (simp add: step_Tick step_RunDeferred step_Completion process_task_def double_round_evals Let_def
      deferred_def suspend_task_def after_next_request_cases request_io_def
      complete_request_def decode_value_def
      sample_waiting_def sample_points_def sample_library_def sample_request_def
      sample_ack_def)

theorem result_queue_counts_clean_completions_witness:
  "main_with 500 sample_points = Inr (sample_waiting 10)
   \<and> clean sample_library
        \<lparr>ioRequest = sample_request 1,
         ioResponse = Some (sample_ack 1 ''presentValue'' None 72),
         ioError = (None :: string option)\<rparr>
   \<and> clean sample_library
        \<lparr>ioRequest = sample_request 2, ioResponse = (None :: int apdu option),
         ioError = Some ''reject''\<rparr>
   \<and> exec sample_library
        [Tick 0, RunDeferred,
         Completion \<lparr>ioRequest = sample_request 1,
                     ioResponse = Some (sample_ack 1 ''presentValue'' None 72),
                     ioError = None\<rparr>,
         RunDeferred,
         Completion \<lparr>ioRequest = sample_request 2, ioResponse = None,
                     ioError = Some ''reject''\<rparr>,
         RunDeferred]
        (sample_waiting 10)
       = Some ((sample_waiting 10)
                \<lparr>point_queue := [],
                 response_values := [DecodedValue (''Real'', 72), ProtocolError ''reject''],
                 task_installed := False, running := False,
                 io_log := [sample_request 1, sample_request 2]\<rparr>)
   \<and> length (response_values ((sample_waiting 10)
                \<lparr>point_queue := [],
                 response_values := [DecodedValue (''Real'', 72), ProtocolError ''reject''],
                 task_installed := False, running := False,
                 io_log := [sample_request 1, sample_request 2]\<rparr>))
       = length sample_points"
proof -
  let ?c1 = "\<lparr>ioRequest = sample_request 1,
              ioResponse = Some (sample_ack 1 ''presentValue'' None 72),
              ioError = (None :: string option)\<rparr>"
  let ?c2 = "\<lparr>ioRequest = sample_request 2, ioResponse = (None :: int apdu option),
              ioError = Some ''reject''\<rparr>"
  let ?evs = "[Tick 0, RunDeferred, Completion ?c1, RunDeferred, Completion ?c2, RunDeferred]"
  let ?s = "(sample_waiting 10)
                \<lparr>point_queue := [],
                 response_values := [DecodedValue (''Real'', 72), ProtocolError ''reject''],
                 task_installed := False, running := False,
                 io_log := [sample_request 1, sample_request 2]\<rparr>"
  have start: "main_with 500 sample_points = Inr (sample_waiting 10)"
    by (simp add: main_with_state double_round_evals sample_waiting_def)
  have c1: "clean sample_library ?c1"
    by (simp add: clean_def decode_value_def sample_library_def sample_ack_def)
  have c2: "clean sample_library ?c2"
    by (simp add: clean_def)
  have run: "exec sample_library ?evs (sample_waiting 10) = Some ?s"
    by (simp add: step_Tick step_RunDeferred step_Completion process_task_def double_round_evals Let_def
        deferred_def suspend_task_def stop_def after_next_request_cases request_io_def
        complete_request_def decode_value_def
        sample_waiting_def sample_points_def sample_library_def sample_request_def
        sample_ack_def)
  have cl: "\<forall>c \<in> set (completions ?evs). clean sample_library c"
    using c1 c2 by simp
  have stopped: "\<not> running ?s \<and> \<not> task_installed ?s" by simp
  from result_queue_counts_clean_completions [OF start run cl] stopped
  have "length (response_values ?s) = length sample_points" by blast
  then show ?thesis using start c1 c2 run by simp
qed

section \<open>The whole run\<close>

lemma failed_ticks_frame:
  assumes "\<forall>st \<in> set sts. st \<noteq> 0" and "exec lib (map Tick sts) s = Some s'"
  shows "point_queue s' = point_queue s \<and> response_values s' = response_values s
       \<and> task_installed s' = task_installed s \<and> deferredFns s' = deferredFns s
       \<and> io_pending s' = io_pending s \<and> io_log s' = io_log s"
  using assms
proof (induction sts arbitrary: s)
  case Nil
  then show ?case by simp
next
  case (Cons st sts)
  from Cons.prems(2) obtain t where t: "step lib (Tick st) s = Some t"
    "exec lib (map Tick sts) t = Some s'"
    by (cases "step lib (Tick st) s") simp_all
  from t(1) have "t = process_task s st" by (simp add: step_Tick split: if_splits)
  moreover from Cons.prems(1) have "st \<noteq> 0" by simp
  ultimately have "point_queue t = point_queue s \<and> response_values t = response_values s
       \<and> task_installed t = task_installed s \<and> deferredFns t = deferredFns s
       \<and> io_pending t = io_pending s \<and> io_log t = io_log s"
    by (simp add: process_task_def double_round_evals Let_def stop_def)
  moreover from Cons.prems(1) have "\<forall>st \<in> set sts. st \<noteq> 0" by simp
  from Cons.IH [OF this t(2)]
  have "point_queue s' = point_queue t \<and> response_values s' = response_values t
       \<and> task_installed s' = task_installed t \<and> deferredFns s' = deferredFns t
       \<and> io_pending s' = io_pending t \<and> io_log s' = io_log t" .
  ultimately show ?case by simp
qed

lemma drive_exec:
  assumes "list_all2 (\<lambda>p c. build_request lib p = Inr (ioRequest c)) pts cs"
    and "list_all2 (answers lib) cs outs"
    and "running s" and "deferredFns s = [NextRequest]" and "io_pending s = []"
    and "point_queue s = pts"
  shows "exec lib (drive cs) s =
           Some (s\<lparr>point_queue := [], response_values := response_values s @ outs,
                   deferredFns := [], running := False,
                   io_log := io_log s @ map ioRequest cs\<rparr>)"
  using assms
proof (induction pts arbitrary: cs outs s)
  case Nil
  then have cs: "cs = []" and outs: "outs = []" by simp_all
  have "step lib RunDeferred s = Some (s\<lparr>deferredFns := [], running := False\<rparr>)"
    using Nil.prems(3,4,6)
    by (simp add: step_RunDeferred after_next_request_cases stop_def)
  moreover have "s\<lparr>deferredFns := [], running := False\<rparr> =
      s\<lparr>point_queue := [], response_values := response_values s @ [],
        deferredFns := [], running := False, io_log := io_log s @ []\<rparr>"
    using Nil.prems(6) by (cases s) simp
  ultimately show ?case by (simp add: cs outs)
next
  case (Cons p pts)
  from Cons.prems(1) obtain c cs' where cs: "cs = c # cs'"
    and r: "build_request lib p = Inr (ioRequest c)"
    and rest: "list_all2 (\<lambda>p c. build_request lib p = Inr (ioRequest c)) pts cs'"
    by (auto simp: list_all2_Cons1)
  from Cons.prems(2) cs obtain out outs' where outs: "outs = out # outs'"
    and a: "answers lib c out" and arest: "list_all2 (answers lib) cs' outs'"
    by (auto simp: list_all2_Cons1)
  let ?s1 = "s\<lparr>point_queue := pts, deferredFns := [],
               io_pending := [ioRequest c], io_log := io_log s @ [ioRequest c]\<rparr>"
  let ?s2 = "s\<lparr>point_queue := pts, response_values := response_values s @ [out],
               io_log := io_log s @ [ioRequest c]\<rparr>"
  have s1: "step lib RunDeferred s = Some ?s1"
    using Cons.prems(3,4,5,6) r
    by (simp add: step_RunDeferred after_next_request_cases request_io_def)
  have s2: "step lib (Completion c) ?s1 = Some ?s2"
    using Cons.prems(3,4,5) by (simp add: step_Completion answers_complete [OF a] deferred_def)
  have "exec lib (drive cs') ?s2 =
      Some (?s2\<lparr>point_queue := [], response_values := response_values ?s2 @ outs',
                 deferredFns := [], running := False,
                 io_log := io_log ?s2 @ map ioRequest cs'\<rparr>)"
    using Cons.prems(3,4,5) by (intro Cons.IH [OF rest arest]) simp_all
  then show ?case using s1 s2 by (simp add: cs outs)
qed


lemma submit_needs_idle:
  assumes "single_flight s" and "step lib ev s = Some t" and "io_log t \<noteq> io_log s"
  shows "io_pending s = []"
proof (cases ev)
  case (Tick st)
  with assms(2,3) show ?thesis
    by (auto simp: step_Tick process_task_def double_round_evals Let_def deferred_def suspend_task_def stop_def
        split: if_splits)
next
  case RunDeferred
  with assms(2) have "deferredFns s \<noteq> []" by (simp add: step_RunDeferred split: if_splits)
  with assms(1) show ?thesis
    by (cases "deferredFns s") (simp_all add: single_flight_def)
next
  case (Completion c)
  with assms(2,3) show ?thesis
    by (auto simp: step_Completion complete_request_def deferred_def
        split: if_splits option.splits sum.splits)
qed

lemma completions_append: "completions (xs @ ys) = completions xs @ completions ys"
proof (induction xs)
  case Nil
  then show ?case by simp
next
  case (Cons ev xs)
  then show ?case by (cases ev) simp_all
qed

lemma completions_ticks: "completions (map Tick sts) = []"
  by (induction sts) simp_all

lemma completions_drive: "completions (drive cs) = cs"
  by (induction cs) simp_all

lemma in_order_head_builds:
  assumes "in_order lib point_list s" and "\<forall>p \<in> set point_list. \<not> isl (build_request lib p)"
    and "point_queue s = p # rest"
  shows "\<exists>r. build_request lib p = Inr r"
proof -
  from assms(1,3) have "build_request lib p \<in> set (map (build_request lib) point_list)"
    by (simp add: in_order_def)
  then obtain q where "q \<in> set point_list" "build_request lib q = build_request lib p"
    by auto
  with assms(2) have "\<not> isl (build_request lib p)" by metis
  then show ?thesis by (cases "build_request lib p") simp_all
qed

lemma never_stuck_step:
  assumes "in_order lib point_list s" and "\<forall>p \<in> set point_list. \<not> isl (build_request lib p)"
    and "step lib ev s = Some t" and "\<forall>c \<in> set (completions [ev]). clean lib c"
  shows "never_stuck t"
proof (cases ev)
  case (Tick st)
  with assms(3) show ?thesis
    by (auto simp: never_stuck_def step_Tick process_task_def Let_def deferred_def
        suspend_task_def stop_def split: if_splits)
next
  case RunDeferred
  show ?thesis
  proof (cases "point_queue s")
    case Nil
    with assms(3) RunDeferred show ?thesis
      by (auto simp: never_stuck_def step_RunDeferred after_next_request_cases stop_def
          split: if_splits)
  next
    case (Cons p rest)
    from in_order_head_builds [OF assms(1,2) Cons] obtain r where "build_request lib p = Inr r" ..
    with assms(3) RunDeferred Cons show ?thesis
      by (auto simp: never_stuck_def step_RunDeferred after_next_request_cases request_io_def
          split: if_splits)
  qed
next
  case (Completion c)
  with assms(4) have "clean lib c" by simp
  then obtain out where "answers lib c out" using clean_answers by blast
  note appended = answers_complete [OF this]
  from assms(3) Completion
  have t: "t = after (complete_request lib
                        (s\<lparr>io_pending := remove1 (ioRequest c) (io_pending s)\<rparr>) c)"
    by (simp add: step_Completion split: if_splits)
  show ?thesis unfolding t appended by (simp add: never_stuck_def deferred_def)
qed

lemma log_follows_step:
  assumes "single_flight s" and "step lib ev s = Some t"
    and "io_log s = map ioRequest finished @ io_pending s"
  shows "io_log t = map ioRequest (finished @ completions [ev]) @ io_pending t"
proof (cases ev)
  case (Tick st)
  with assms(2,3) show ?thesis
    by (auto simp: step_Tick process_task_def Let_def deferred_def suspend_task_def stop_def
        split: if_splits)
next
  case RunDeferred
  with assms(2,3) show ?thesis
    by (auto simp: step_RunDeferred after_next_request_cases request_io_def stop_def
        split: if_splits list.splits sum.splits)
next
  case (Completion c)
  with assms(2) have mem: "ioRequest c \<in> set (io_pending s)"
    by (simp add: step_Completion split: if_splits)
  from assms(1) have "length (io_pending s) \<le> 1" by (simp add: single_flight_def)
  with mem have p: "io_pending s = [ioRequest c]"
    by (cases "io_pending s") auto
  from assms(2) Completion p
  have "io_log t = io_log s \<and> io_pending t = []"
    by (auto simp: step_Completion complete_request_def deferred_def
        split: if_splits option.splits sum.splits)
  with assms(3) p Completion show ?thesis by simp
qed

lemma log_follows_exec:
  assumes "single_flight s" and "exec lib evs s = Some s'"
    and "io_log s = map ioRequest finished @ io_pending s"
  shows "io_log s' = map ioRequest (finished @ completions evs) @ io_pending s'"
  using assms
proof (induction evs arbitrary: s finished)
  case Nil
  then show ?case by simp
next
  case (Cons ev evs)
  from Cons.prems(2) obtain t where t: "step lib ev s = Some t" "exec lib evs t = Some s'"
    by (cases "step lib ev s") simp_all
  from Cons.IH [OF single_flight_step [OF Cons.prems(1) t(1)] t(2)
      log_follows_step [OF Cons.prems(1) t(1) Cons.prems(3)]]
  show ?case by (simp add: completions_Cons [of ev evs])
qed

lemma results_answer_step:
  assumes "step lib ev s = Some t" and "\<forall>c \<in> set (completions [ev]). clean lib c"
    and "list_all2 (answers lib) finished (response_values s)"
  shows "list_all2 (answers lib) (finished @ completions [ev]) (response_values t)"
proof (cases ev)
  case (Tick st)
  with assms(1,3) show ?thesis
    by (auto simp: step_Tick process_task_def Let_def deferred_def suspend_task_def stop_def
        split: if_splits)
next
  case RunDeferred
  with assms(1,3) show ?thesis
    by (auto simp: step_RunDeferred after_next_request_cases request_io_def stop_def
        split: if_splits list.splits sum.splits)
next
  case (Completion c)
  with assms(2) have "clean lib c" by simp
  then obtain out where out: "answers lib c out" using clean_answers by blast
  note appended = answers_complete [OF this]
  from assms(1) Completion
  have t: "t = after (complete_request lib
                        (s\<lparr>io_pending := remove1 (ioRequest c) (io_pending s)\<rparr>) c)"
    by (simp add: step_Completion split: if_splits)
  have "response_values t = response_values s @ [out]"
    unfolding t appended by (simp add: deferred_def)
  with assms(3) out Completion show ?thesis
    by (simp add: list_all2_appendI)
qed

lemma results_answer_exec:
  assumes "exec lib evs s = Some s'" and "\<forall>c \<in> set (completions evs). clean lib c"
    and "list_all2 (answers lib) finished (response_values s)"
  shows "list_all2 (answers lib) (finished @ completions evs) (response_values s')"
  using assms
proof (induction evs arbitrary: s finished)
  case Nil
  then show ?case by simp
next
  case (Cons ev evs)
  from Cons.prems(1) obtain t where t: "step lib ev s = Some t" "exec lib evs t = Some s'"
    by (cases "step lib ev s") simp_all
  have split: "completions (ev # evs) = completions [ev] @ completions evs"
    by (rule completions_Cons)
  have c1: "\<forall>c \<in> set (completions [ev]). clean lib c"
    and c2: "\<forall>c \<in> set (completions evs). clean lib c"
    using Cons.prems(2) unfolding split by simp_all
  from Cons.IH [OF t(2) c2 results_answer_step [OF t(1) c1 Cons.prems(3)]]
  show ?case unfolding split by simp
qed

lemma never_stuck_exec:
  assumes "never_stuck s" and "in_order lib point_list s"
    and "\<forall>p \<in> set point_list. \<not> isl (build_request lib p)"
    and "exec lib evs s = Some s'" and "\<forall>c \<in> set (completions evs). clean lib c"
  shows "never_stuck s'"
  using assms(1,2,4,5)
proof (induction evs arbitrary: s)
  case Nil
  then show ?case by simp
next
  case (Cons ev evs)
  from Cons.prems(3) obtain t where t: "step lib ev s = Some t" "exec lib evs t = Some s'"
    by (cases "step lib ev s") simp_all
  have split: "completions (ev # evs) = completions [ev] @ completions evs"
    by (rule completions_Cons)
  have c1: "\<forall>c \<in> set (completions [ev]). clean lib c"
    and c2: "\<forall>c \<in> set (completions evs). clean lib c"
    using Cons.prems(4) unfolding split by simp_all
  from Cons.IH [OF never_stuck_step [OF Cons.prems(2) assms(3) t(1) c1]
      in_order_step [OF Cons.prems(2) assms(3) t(1)] t(2) c2]
  show ?case .
qed

lemma clean_list_answers:
  "\<forall>c \<in> set cs. clean lib c \<Longrightarrow> \<exists>outs. list_all2 (answers lib) cs outs"
proof (induction cs)
  case Nil
  then show ?case by simp
next
  case (Cons c cs)
  then obtain outs where outs: "list_all2 (answers lib) cs outs" by auto
  from Cons.prems have "clean lib c" by simp
  then obtain out where "answers lib c out" using clean_answers by blast
  with outs have "list_all2 (answers lib) (c # cs) (out # outs)" by simp
  then show ?case ..
qed

text \<open>
  Claim C1, as amended. Let the request of every configured point be buildable.
  Then in every run from the start of \<open>main\<close> whose completions are all clean
  (each carries exactly one of a response that decodes and an error): at most
  one request is in flight, and a step that sends a request starts with none in
  flight; the requests sent so far are those of the first points of the list,
  in list order; the completions delivered are, one by one and in order, for
  the requests sent, only the last request possibly still in flight; the
  response values are the outcomes of the completions, position by position;
  after the hand-over the driver is never stuck; and once the run has ended
  through the request driver, exactly one request has been sent for each point
  and there is one response value for each. Such an end is reached: after failed
  polls that leave the loop running, the successful tick followed by the
  advances and the clean completions of the requests, in turn, runs to it.
\<close>

theorem sequential_reads_in_list_order:
  assumes "main_with interval point_list = Inr s0"
    and "\<forall>p \<in> set point_list. \<not> isl (build_request lib p)"
  shows "(\<forall>evs s. exec lib evs s0 = Some s \<and> (\<forall>c \<in> set (completions evs). clean lib c) \<longrightarrow>
            length (io_pending s) \<le> 1
          \<and> (\<forall>ev t. step lib ev s = Some t \<and> io_log t \<noteq> io_log s \<longrightarrow> io_pending s = [])
          \<and> map Inr (io_log s) = take (length (io_log s)) (map (build_request lib) point_list)
          \<and> io_log s = map ioRequest (completions evs) @ io_pending s
          \<and> list_all2 (answers lib) (completions evs) (response_values s)
          \<and> (running s \<and> \<not> task_installed s \<longrightarrow> deferredFns s \<noteq> [] \<or> io_pending s \<noteq> [])
          \<and> (\<not> running s \<and> \<not> task_installed s \<longrightarrow>
               map Inr (io_log s) = map (build_request lib) point_list
             \<and> length (io_log s) = length point_list
             \<and> length (response_values s) = length point_list
             \<and> map ioRequest (completions evs) = io_log s))
       \<and> (\<forall>sts s1 cs.
            (\<forall>st \<in> set sts. st \<noteq> 0) \<and> exec lib (map Tick sts) s0 = Some s1 \<and> running s1
            \<and> list_all2 (\<lambda>p c. build_request lib p = Inr (ioRequest c)) point_list cs
            \<and> (\<forall>c \<in> set cs. clean lib c) \<longrightarrow>
            (\<exists>s. exec lib (map Tick sts @ Tick 0 # drive cs) s0 = Some s
               \<and> \<not> running s \<and> \<not> task_installed s
               \<and> completions (map Tick sts @ Tick 0 # drive cs) = cs))"
    (is "(\<forall>evs s. ?given evs s \<longrightarrow> ?safe evs s)
       \<and> (\<forall>sts s1 cs. ?answered sts s1 cs \<longrightarrow> ?ends sts cs)")
proof (rule conjI)
  note w = main_with_waiting [OF assms(1)]
  have sf0: "single_flight s0" by (rule main_with_single_flight [OF assms(1)])
  show "\<forall>evs s. ?given evs s \<longrightarrow> ?safe evs s"
  proof (intro allI impI)
    fix evs s
    assume given: "?given evs s"
    then have run: "exec lib evs s0 = Some s" by (rule conjunct1)
    from given have cl: "\<forall>c \<in> set (completions evs). clean lib c" by (rule conjunct2)
    let ?inr = "Inr :: request \<Rightarrow> exn + request"
    have sf: "single_flight s" by (rule single_flight_exec [OF sf0 run])
    then have one: "length (io_pending s) \<le> 1" by (simp add: single_flight_def)
    have idle: "\<forall>ev t. step lib ev s = Some t \<and> io_log t \<noteq> io_log s \<longrightarrow> io_pending s = []"
    proof (intro allI impI)
      fix ev t
      assume "step lib ev s = Some t \<and> io_log t \<noteq> io_log s"
      then show "io_pending s = []" using submit_needs_idle [OF sf, of lib ev t] by simp
    qed
    have io: "in_order lib point_list s"
      by (rule in_order_exec [OF main_with_in_order [OF assms(1)] assms(2) run])
    then have eq: "map (build_request lib) point_list =
        map ?inr (io_log s) @ map (build_request lib) (point_queue s)"
      by (simp add: in_order_def)
    have "take (length (io_log s)) (map (build_request lib) point_list) =
        take (length (io_log s))
          (map ?inr (io_log s) @ map (build_request lib) (point_queue s))"
      using eq by (rule arg_cong)
    then have pre: "map ?inr (io_log s) =
        take (length (io_log s)) (map (build_request lib) point_list)"
      by simp
    have "io_log s0 = map ioRequest [] @ io_pending s0" using w by simp
    from log_follows_exec [OF sf0 run this]
    have lf: "io_log s = map ioRequest (completions evs) @ io_pending s" by simp
    have "list_all2 (answers lib) [] (response_values s0)" using w by simp
    from results_answer_exec [OF run cl this]
    have ra: "list_all2 (answers lib) (completions evs) (response_values s)" by simp
    have "never_stuck s0" using w by (simp add: never_stuck_def)
    from never_stuck_exec [OF this main_with_in_order [OF assms(1)] assms(2) run cl]
    have ns: "running s \<and> \<not> task_installed s \<longrightarrow> deferredFns s \<noteq> [] \<or> io_pending s \<noteq> []"
      by (simp add: never_stuck_def)
    have fin: "\<not> running s \<and> \<not> task_installed s \<longrightarrow>
               map ?inr (io_log s) = map (build_request lib) point_list
             \<and> length (io_log s) = length point_list
             \<and> length (response_values s) = length point_list
             \<and> map ioRequest (completions evs) = io_log s"
    proof
      assume d: "\<not> running s \<and> \<not> task_installed s"
      with sf have e: "point_queue s = []" "io_pending s = []"
        by (simp_all add: single_flight_def)
      from eq e have all: "map ?inr (io_log s) = map (build_request lib) point_list" by simp
      then have "length (map ?inr (io_log s)) = length (map (build_request lib) point_list)"
        by (rule arg_cong)
      then have len: "length (io_log s) = length point_list" by simp
      have "length (response_values s) = length (completions evs)"
        using ra by (simp add: list_all2_lengthD)
      also have "\<dots> = length (map ioRequest (completions evs))" by simp
      also have "\<dots> = length (io_log s)" using lf e by simp
      finally have lr: "length (response_values s) = length point_list" using len by simp
      have lc: "map ioRequest (completions evs) = io_log s" using lf e by simp
      show "map ?inr (io_log s) = map (build_request lib) point_list
             \<and> length (io_log s) = length point_list
             \<and> length (response_values s) = length point_list
             \<and> map ioRequest (completions evs) = io_log s"
        by (rule conjI [OF all conjI [OF len conjI [OF lr lc]]])
    qed
    show "?safe evs s"
      by (rule conjI [OF one conjI [OF idle conjI [OF pre conjI [OF lf
            conjI [OF ra conjI [OF ns fin]]]]]])
  qed
  show "\<forall>sts s1 cs. ?answered sts s1 cs \<longrightarrow> ?ends sts cs"
  proof (intro allI impI)
    fix sts s1 cs
    assume h: "?answered sts s1 cs"
    then have nz: "\<forall>st \<in> set sts. st \<noteq> 0" by (rule conjunct1)
    from h have polls: "exec lib (map Tick sts) s0 = Some s1" by simp
    from h have r1: "running s1" by simp
    from h have reqs: "list_all2 (\<lambda>p c. build_request lib p = Inr (ioRequest c)) point_list cs"
      by simp
    from h have cl: "\<forall>c \<in> set cs. clean lib c" by simp
    note fr = failed_ticks_frame [OF nz polls]
    from clean_list_answers [OF cl] obtain outs where outs: "list_all2 (answers lib) cs outs" ..
    let ?s2 = "s1\<lparr>deferredFns := [NextRequest], task_installed := False\<rparr>"
    let ?s3 = "?s2\<lparr>point_queue := [], response_values := response_values ?s2 @ outs,
                 deferredFns := [], running := False,
                 io_log := io_log ?s2 @ map ioRequest cs\<rparr>"
    have hand: "step lib (Tick 0) s1 = Some ?s2"
      using r1 fr w by (intro success_tick_defers) simp_all
    have "exec lib (drive cs) ?s2 = Some ?s3"
      using r1 fr w by (intro drive_exec [OF reqs outs]) simp_all
    then have e: "exec lib (map Tick sts @ Tick 0 # drive cs) s0 = Some ?s3"
      using polls hand by (simp add: exec_append)
    have d: "\<not> running ?s3" "\<not> task_installed ?s3" by simp_all
    have c: "completions (map Tick sts @ Tick 0 # drive cs) = cs"
      by (simp add: completions_append completions_ticks completions_drive)
    show "?ends sts cs"
      by (rule exI [of _ ?s3]) (rule conjI [OF e conjI [OF d(1) conjI [OF d(2) c]]])
  qed
qed

text \<open>
  The claim as it was stated fails on the sample's own non-empty list, after a
  successful registration. When the first point is answered with a property that
  the registry does not know, one request of two has been sent, nothing is
  recorded, and no event can happen any more: the monitor is suspended, nothing
  is deferred and nothing is in flight. And when the object identifier of the
  first point is not accepted, the point is dequeued and no request is sent at
  all, with the same end.
\<close>

theorem sequential_reads_counterexample:
  "exec sample_library
     [Tick 0, RunDeferred,
      Completion \<lparr>ioRequest = sample_request 1,
                  ioResponse = Some (sample_ack 1 ''description'' None 0),
                  ioError = (None :: string option)\<rparr>]
     (sample_waiting 10)
   = Some ((sample_waiting 10)
            \<lparr>point_queue := [(''10.0.1.14'', ''analogValue:2'', ''presentValue'')],
             task_installed := False, io_log := [sample_request 1]\<rparr>)
   \<and> step sample_library (RunDeferred :: (int, string) event)
        ((sample_waiting 10)
            \<lparr>point_queue := [(''10.0.1.14'', ''analogValue:2'', ''presentValue'')],
             task_installed := False, io_log := [sample_request 1]\<rparr>) = None
   \<and> step sample_library (Tick 0 :: (int, string) event)
        ((sample_waiting 10)
            \<lparr>point_queue := [(''10.0.1.14'', ''analogValue:2'', ''presentValue'')],
             task_installed := False, io_log := [sample_request 1]\<rparr>) = None
   \<and> exec sample_library [Tick 0 :: (int, string) event, RunDeferred]
        ((sample_waiting 10)
            \<lparr>point_queue := [(''10.0.1.14'', ''analogValue'', ''presentValue''),
                            (''10.0.1.14'', ''analogValue:2'', ''presentValue'')]\<rparr>)
   = Some ((sample_waiting 10)
            \<lparr>point_queue := [(''10.0.1.14'', ''analogValue:2'', ''presentValue'')],
             task_installed := False\<rparr>)
   \<and> step sample_library (RunDeferred :: (int, string) event)
        ((sample_waiting 10)
            \<lparr>point_queue := [(''10.0.1.14'', ''analogValue:2'', ''presentValue'')],
             task_installed := False\<rparr>) = None"
  by (simp add: step_Tick step_RunDeferred step_Completion process_task_def Let_def
      deferred_def suspend_task_def after_next_request_cases request_io_def
      complete_request_def decode_value_def
      sample_waiting_def sample_points_def sample_library_def sample_request_def
      sample_ack_def)

theorem sequential_reads_in_list_order_witness:
  "main_with 500 sample_points = Inr (sample_waiting 10)
   \<and> build_request sample_library (''10.0.1.14'', ''analogValue:1'', ''presentValue'')
       = Inr (sample_request 1)
   \<and> build_request sample_library (''10.0.1.14'', ''analogValue:2'', ''presentValue'')
       = Inr (sample_request 2)
   \<and> exec sample_library
        (map Tick [-1, -1] @ Tick 0 #
         drive [\<lparr>ioRequest = sample_request 1,
                  ioResponse = Some (sample_ack 1 ''presentValue'' None 72),
                  ioError = None\<rparr>,
                \<lparr>ioRequest = sample_request 2, ioResponse = None,
                  ioError = Some ''reject''\<rparr>])
        (sample_waiting 10)
       = Some ((sample_waiting 8)
                \<lparr>point_queue := [],
                 response_values := [DecodedValue (''Real'', 72), ProtocolError ''reject''],
                 task_installed := False, running := False,
                 io_log := [sample_request 1, sample_request 2]\<rparr>)
   \<and> length (io_log ((sample_waiting 8)
                \<lparr>point_queue := [],
                 response_values := [DecodedValue (''Real'', 72), ProtocolError ''reject''],
                 task_installed := False, running := False,
                 io_log := [sample_request 1, sample_request 2]\<rparr>))
       = length sample_points
   \<and> length (response_values ((sample_waiting 8)
                \<lparr>point_queue := [],
                 response_values := [DecodedValue (''Real'', 72), ProtocolError ''reject''],
                 task_installed := False, running := False,
                 io_log := [sample_request 1, sample_request 2]\<rparr>))
       = length sample_points"
proof -
  let ?c1 = "\<lparr>ioRequest = sample_request 1,
              ioResponse = Some (sample_ack 1 ''presentValue'' None 72),
              ioError = (None :: string option)\<rparr>"
  let ?c2 = "\<lparr>ioRequest = sample_request 2, ioResponse = (None :: int apdu option),
              ioError = Some ''reject''\<rparr>"
  let ?evs = "map Tick [-1, -1] @ Tick 0 # drive [?c1, ?c2]"
  let ?s = "(sample_waiting 8)
                \<lparr>point_queue := [],
                 response_values := [DecodedValue (''Real'', 72), ProtocolError ''reject''],
                 task_installed := False, running := False,
                 io_log := [sample_request 1, sample_request 2]\<rparr>"
  have start: "main_with 500 sample_points = Inr (sample_waiting 10)"
    by (simp add: main_with_state double_round_evals sample_waiting_def)
  have b1: "build_request sample_library (''10.0.1.14'', ''analogValue:1'', ''presentValue'')
       = Inr (sample_request 1)"
    and b2: "build_request sample_library (''10.0.1.14'', ''analogValue:2'', ''presentValue'')
       = Inr (sample_request 2)"
    by (simp_all add: sample_library_def sample_request_def)
  have built: "\<forall>p \<in> set sample_points. \<not> isl (build_request sample_library p)"
    using b1 b2 by (simp add: sample_points_def)
  have c1: "clean sample_library ?c1"
    by (simp add: clean_def decode_value_def sample_library_def sample_ack_def)
  have c2: "clean sample_library ?c2"
    by (simp add: clean_def)
  have cl: "\<forall>c \<in> set (completions ?evs). clean sample_library c"
    using c1 c2 by simp
  have run: "exec sample_library ?evs (sample_waiting 10) = Some ?s"
    by (simp add: step_Tick step_RunDeferred step_Completion process_task_def
        double_round_evals Let_def
        deferred_def suspend_task_def stop_def after_next_request_cases request_io_def
        complete_request_def decode_value_def
        sample_waiting_def sample_points_def sample_library_def sample_request_def
        sample_ack_def)
  have stopped: "\<not> running ?s \<and> \<not> task_installed ?s" by simp
  note safe = sequential_reads_in_list_order [OF start built, THEN conjunct1, THEN spec,
      THEN spec, THEN mp, OF conjI [OF run cl]]
  note ended = safe [THEN conjunct2, THEN conjunct2, THEN conjunct2, THEN conjunct2,
      THEN conjunct2, THEN conjunct2, THEN mp, OF stopped]
  from ended have "length (io_log ?s) = length sample_points"
    by (rule conjunct2 [THEN conjunct1])
  moreover from ended have "length (response_values ?s) = length sample_points"
    by (rule conjunct2 [THEN conjunct2, THEN conjunct1])
  ultimately show ?thesis using start b1 b2 run by simp
qed

end
